theory Spec2Isabelle
  imports Main "HOL-Library.Multiset"
begin

section \<open>Values that reach the handlers\<close>

text \<open>
  The forum backend of \<^verbatim>\<open>src/server.js\<close> is a set of Express handlers, each of which
  sends SQL statements to one PostgreSQL database.  A field of a JSON request body is
  any JSON value; the handlers apply JavaScript's \<^verbatim>\<open>||\<close> to some of them, so the
  model keeps the value and its truthiness.  Numbers are the integral ones.
\<close>

datatype jsval = JUndefined | JNull | JBool bool | JNum int | JStr string

fun truthy :: "jsval \<Rightarrow> bool" where
  "truthy JUndefined = False"
| "truthy JNull = False"
| "truthy (JBool b) = b"
| "truthy (JNum n) = (n \<noteq> 0)"
| "truthy (JStr s) = (s \<noteq> [])"

text \<open>\<^verbatim>\<open>a || b\<close>\<close>

definition js_or :: "jsval \<Rightarrow> jsval \<Rightarrow> jsval" where
  "js_or a b = (if truthy a then a else b)"

text \<open>
  What the process takes from outside the repository: PostgreSQL's reading of a text
  as a whole number of any size (\<open>None\<close> when the text is not one), bcryptjs,
  jsonwebtoken and the environment variables the handlers read.
\<close>

record env =
  int_in :: "string \<Rightarrow> int option"
  bcrypt_hash :: "string \<Rightarrow> string"
  bcrypt_compare :: "string \<Rightarrow> string \<Rightarrow> bool"
  jwt_sign :: "int \<Rightarrow> string \<Rightarrow> string \<Rightarrow> string"
  JWT_SECRET :: "string option"
  NODE_ENV :: "string option"

text \<open>\<^verbatim>\<open>process.env.JWT_SECRET || 'nexus-secret-key'\<close>\<close>

definition secret :: "env \<Rightarrow> string" where
  "secret e = (case JWT_SECRET e of
                 None \<Rightarrow> ''nexus-secret-key''
               | Some k \<Rightarrow> if k \<noteq> [] then k else ''nexus-secret-key'')"

subsection \<open>Errors\<close>

text \<open>
  The errors a statement raises, named after PostgreSQL's error classes; the string is
  the column or the constraint.  \<open>Bcrypt_illegal_arguments\<close> is what bcryptjs throws
  when the password is not a string.
\<close>

datatype pg_error =
    Invalid_text_representation
  | Numeric_value_out_of_range
  | Character_not_in_repertoire
  | Not_null_violation string
  | String_data_right_truncation
  | Unique_violation string
  | Foreign_key_violation string
  | Sequence_generator_limit_exceeded
  | Invalid_row_count_in_limit
  | Invalid_row_count_in_offset

datatype failure = Pg pg_error | Bcrypt_illegal_arguments

subsection \<open>Parameters\<close>

text \<open>
  node-postgres sends every parameter as a text, and PostgreSQL reads it as the type of
  the column it is bound to or compared with, before the statement runs.  \<^verbatim>\<open>INTEGER\<close>
  is the 32-bit type, the \<^verbatim>\<open>LIMIT\<close> and \<^verbatim>\<open>OFFSET\<close> of a query are 64-bit.
\<close>

definition in_int4 :: "int \<Rightarrow> bool" where
  "in_int4 n = (- 2147483648 \<le> n \<and> n \<le> 2147483647)"

definition in_int8 :: "int \<Rightarrow> bool" where
  "in_int8 n = (- 9223372036854775808 \<le> n \<and> n \<le> 9223372036854775807)"

text \<open>
  A text parameter (\<open>None\<close> is \<^verbatim>\<open>undefined\<close> or \<^verbatim>\<open>null\<close>, sent as NULL): PostgreSQL
  refuses a text that contains the character NUL.  Texts are lists of characters, and
  their length is the number of characters.
\<close>

definition pg_text :: "string option \<Rightarrow> pg_error + string option" where
  "pg_text v =
     (case v of
        None \<Rightarrow> Inr None
      | Some t \<Rightarrow> if CHR 0x00 \<in> set t then Inl Character_not_in_repertoire else Inr (Some t))"

text \<open>A text read as an \<^verbatim>\<open>INTEGER\<close>, as for the id in a path.\<close>

definition int4_in :: "env \<Rightarrow> string \<Rightarrow> pg_error + int" where
  "int4_in e t =
     (if CHR 0x00 \<in> set t then Inl Character_not_in_repertoire
      else case int_in e t of
             None \<Rightarrow> Inl Invalid_text_representation
           | Some n \<Rightarrow> if in_int4 n then Inr n else Inl Numeric_value_out_of_range)"

text \<open>
  A JSON value bound to an \<^verbatim>\<open>INTEGER\<close>: \<^verbatim>\<open>undefined\<close> and \<^verbatim>\<open>null\<close> are NULL, a
  string is its text, a boolean is \<^verbatim>\<open>true\<close> or \<^verbatim>\<open>false\<close>, a number is its decimal
  digits, or a text with an exponent, which is no integer, from \<open>10\<^sup>2\<^sup>1\<close> on.
\<close>

fun pg_int :: "env \<Rightarrow> jsval \<Rightarrow> pg_error + int option" where
  "pg_int e JUndefined = Inr None"
| "pg_int e JNull = Inr None"
| "pg_int e (JNum n) =
     (if in_int4 n then Inr (Some n)
      else if \<bar>n\<bar> < 1000000000000000000000 then Inl Numeric_value_out_of_range
      else Inl Invalid_text_representation)"
| "pg_int e (JBool b) =
     (case int4_in e (if b then ''true'' else ''false'') of
        Inl err \<Rightarrow> Inl err
      | Inr n \<Rightarrow> Inr (Some n))"
| "pg_int e (JStr s) =
     (case int4_in e s of
        Inl err \<Rightarrow> Inl err
      | Inr n \<Rightarrow> Inr (Some n))"

text \<open>
  The cast of a parameter to the \<^verbatim>\<open>VARCHAR(n)\<close> of its column: a longer text is an
  error unless only blanks are cut off.  PostgreSQL evaluates the cast of a parameter
  when it plans the statement, so this error comes before the statement takes a value
  from a sequence.
\<close>

definition varchar :: "nat \<Rightarrow> string \<Rightarrow> pg_error + string" where
  "varchar n t =
     (if length t \<le> n then Inr t
      else if list_all (\<lambda>c. c = CHR '' '') (drop n t) then Inr (take n t)
      else Inl String_data_right_truncation)"

definition varchar_param :: "nat \<Rightarrow> string option \<Rightarrow> pg_error + string option" where
  "varchar_param n v =
     (case v of
        None \<Rightarrow> Inr None
      | Some t \<Rightarrow> (case varchar n t of Inl err \<Rightarrow> Inl err | Inr t' \<Rightarrow> Inr (Some t')))"

text \<open>A nullable \<^verbatim>\<open>INTEGER REFERENCES\<close> column: NULL references nothing.\<close>

definition references :: "int option \<Rightarrow> int list \<Rightarrow> bool" where
  "references v ids = (case v of None \<Rightarrow> True | Some i \<Rightarrow> i \<in> set ids)"

text \<open>
  \<^verbatim>\<open>nextval\<close> on the sequence of a \<^verbatim>\<open>SERIAL\<close> column, whose values end at
  \<open>2\<^sup>3\<^sup>1 - 1\<close>; the argument is the value that the sequence hands out next.
\<close>

definition nextval :: "int \<Rightarrow> pg_error + int" where
  "nextval n = (if n \<le> 2147483647 then Inr n else Inl Sequence_generator_limit_exceeded)"

section \<open>The schema\<close>

text \<open>
  One record per table of \<^verbatim>\<open>initDB\<close>.  A column that a handler can leave NULL is an
  option; the columns with a default that no handler overrides (\<^verbatim>\<open>views\<close>,
  \<^verbatim>\<open>is_pinned\<close>, \<^verbatim>\<open>is_locked\<close>, \<^verbatim>\<open>likes\<close> and the timestamps) are never NULL.  An
  \<^verbatim>\<open>INTEGER\<close> column holds an integer of 32 bits; the statements that compute one
  check the bound.  Timestamps are seconds on the database's clock.  The column \<^verbatim>\<open>likes\<close> of
  \<^verbatim>\<open>posts\<close> is \<open>likes_count\<close>, since \<open>likes\<close> names the table.
\<close>

record user =
  u_id :: int
  username :: string
  email :: string
  password_hash :: string
  avatar_url :: "string option"
  bio :: "string option"
  u_created_at :: nat
  last_seen :: nat

record category =
  c_id :: int
  c_name :: string
  description :: "string option"
  color :: "string option"
  icon :: "string option"
  c_created_at :: nat

record topic =
  t_id :: int
  title :: string
  t_content :: string
  t_user_id :: "int option"
  category_id :: "int option"
  views :: int
  is_pinned :: bool
  is_locked :: bool
  t_created_at :: nat
  t_updated_at :: nat

record post =
  p_id :: int
  p_content :: string
  topic_id :: "int option"
  p_user_id :: "int option"
  parent_id :: "int option"
  likes_count :: int
  p_created_at :: nat
  p_updated_at :: nat

record like =
  l_id :: int
  l_user_id :: "int option"
  l_post_id :: "int option"
  l_created_at :: nat

text \<open>
  The database: the rows of each table in the order in which they were written, the
  value that the sequence behind each \<^verbatim>\<open>SERIAL\<close> column hands out next and the clock
  that \<^verbatim>\<open>CURRENT_TIMESTAMP\<close> reads.
\<close>

record store =
  users :: "user list"
  categories :: "category list"
  topics :: "topic list"
  posts :: "post list"
  likes :: "like list"
  users_seq :: int
  categories_seq :: int
  topics_seq :: int
  posts_seq :: int
  likes_seq :: int
  clock :: nat

text \<open>A database in which \<^verbatim>\<open>CREATE TABLE IF NOT EXISTS\<close> has just created every table.\<close>

definition fresh :: "nat \<Rightarrow> store" where
  "fresh now = \<lparr>users = [], categories = [], topics = [], posts = [], likes = [],
                users_seq = 1, categories_seq = 1, topics_seq = 1, posts_seq = 1,
                likes_seq = 1, clock = now\<rparr>"

text \<open>Time passes between two requests.\<close>

definition tick :: "nat \<Rightarrow> store \<Rightarrow> store" where
  "tick dt s = s\<lparr>clock := clock s + dt\<rparr>"

section \<open>Statements\<close>

text \<open>
  An \<^verbatim>\<open>INSERT\<close> casts its parameters, takes the next value of the table's sequence
  (and keeps it taken, whether or not the row is stored in the end), checks \<^verbatim>\<open>NOT NULL\<close>,
  the primary key, the unique constraints and the foreign keys, and returns the stored
  row (\<^verbatim>\<open>RETURNING\<close>) or the error, with the database after it.
\<close>

definition users_insert ::
  "store \<Rightarrow> string option \<Rightarrow> string option \<Rightarrow> string option \<Rightarrow> string option
     \<Rightarrow> (pg_error + user) \<times> store" where
  "users_insert s un em ph b =
     (case varchar_param 50 un of
        Inl err \<Rightarrow> (Inl err, s)
      | Inr un1 \<Rightarrow>
     (case varchar_param 100 em of
        Inl err \<Rightarrow> (Inl err, s)
      | Inr em1 \<Rightarrow>
     (case varchar_param 255 ph of
        Inl err \<Rightarrow> (Inl err, s)
      | Inr ph1 \<Rightarrow>
     (case nextval (users_seq s) of
        Inl err \<Rightarrow> (Inl err, s)
      | Inr i \<Rightarrow>
     (let s1 = s\<lparr>users_seq := i + 1\<rparr> in
      case un1 of
        None \<Rightarrow> (Inl (Not_null_violation ''username''), s1)
      | Some n \<Rightarrow>
     (case em1 of
        None \<Rightarrow> (Inl (Not_null_violation ''email''), s1)
      | Some m \<Rightarrow>
     (case ph1 of
        None \<Rightarrow> (Inl (Not_null_violation ''password_hash''), s1)
      | Some h \<Rightarrow>
        if i \<in> set (map u_id (users s))
          then (Inl (Unique_violation ''users_pkey''), s1)
        else if n \<in> set (map username (users s))
          then (Inl (Unique_violation ''users_username_key''), s1)
        else if m \<in> set (map email (users s))
          then (Inl (Unique_violation ''users_email_key''), s1)
        else
          (let u = \<lparr>u_id = i, username = n, email = m, password_hash = h,
                    avatar_url = None, bio = b, u_created_at = clock s,
                    last_seen = clock s\<rparr>
           in (Inr u, s1\<lparr>users := users s @ [u]\<rparr>)))))))))"

definition topics_insert ::
  "store \<Rightarrow> string option \<Rightarrow> string option \<Rightarrow> int option \<Rightarrow> int option
     \<Rightarrow> (pg_error + topic) \<times> store" where
  "topics_insert s ti co cat uid =
     (case varchar_param 200 ti of
        Inl err \<Rightarrow> (Inl err, s)
      | Inr ti1 \<Rightarrow>
     (case nextval (topics_seq s) of
        Inl err \<Rightarrow> (Inl err, s)
      | Inr i \<Rightarrow>
     (let s1 = s\<lparr>topics_seq := i + 1\<rparr> in
      case ti1 of
        None \<Rightarrow> (Inl (Not_null_violation ''title''), s1)
      | Some t \<Rightarrow>
     (case co of
        None \<Rightarrow> (Inl (Not_null_violation ''content''), s1)
      | Some c \<Rightarrow>
        if i \<in> set (map t_id (topics s))
          then (Inl (Unique_violation ''topics_pkey''), s1)
        else if \<not> references uid (map u_id (users s))
          then (Inl (Foreign_key_violation ''topics_user_id_fkey''), s1)
        else if \<not> references cat (map c_id (categories s))
          then (Inl (Foreign_key_violation ''topics_category_id_fkey''), s1)
        else
          (let r = \<lparr>t_id = i, title = t, t_content = c, t_user_id = uid,
                    category_id = cat, views = 0, is_pinned = False, is_locked = False,
                    t_created_at = clock s, t_updated_at = clock s\<rparr>
           in (Inr r, s1\<lparr>topics := topics s @ [r]\<rparr>))))))"

definition posts_insert ::
  "store \<Rightarrow> string option \<Rightarrow> int option \<Rightarrow> int option \<Rightarrow> int option
     \<Rightarrow> (pg_error + post) \<times> store" where
  "posts_insert s co tid uid par =
     (case nextval (posts_seq s) of
        Inl err \<Rightarrow> (Inl err, s)
      | Inr i \<Rightarrow>
     (let s1 = s\<lparr>posts_seq := i + 1\<rparr> in
      case co of
        None \<Rightarrow> (Inl (Not_null_violation ''content''), s1)
      | Some c \<Rightarrow>
        if i \<in> set (map p_id (posts s))
          then (Inl (Unique_violation ''posts_pkey''), s1)
        else if \<not> references tid (map t_id (topics s))
          then (Inl (Foreign_key_violation ''posts_topic_id_fkey''), s1)
        else if \<not> references uid (map u_id (users s))
          then (Inl (Foreign_key_violation ''posts_user_id_fkey''), s1)
        else if \<not> references par (map p_id (posts s))
          then (Inl (Foreign_key_violation ''posts_parent_id_fkey''), s1)
        else
          (let r = \<lparr>p_id = i, p_content = c, topic_id = tid, p_user_id = uid,
                    parent_id = par, likes_count = 0, p_created_at = clock s,
                    p_updated_at = clock s\<rparr>
           in (Inr r, s1\<lparr>posts := posts s @ [r]\<rparr>))))"

text \<open>
  \<^verbatim>\<open>UNIQUE(user_id, post_id)\<close> compares rows whose two columns are both not NULL.
\<close>

definition likes_insert ::
  "store \<Rightarrow> int option \<Rightarrow> int option \<Rightarrow> (pg_error + like) \<times> store" where
  "likes_insert s uid pid =
     (case nextval (likes_seq s) of
        Inl err \<Rightarrow> (Inl err, s)
      | Inr i \<Rightarrow>
     (let s1 = s\<lparr>likes_seq := i + 1\<rparr> in
      if i \<in> set (map l_id (likes s))
        then (Inl (Unique_violation ''likes_pkey''), s1)
      else if uid \<noteq> None \<and> pid \<noteq> None
              \<and> (uid, pid) \<in> set (map (\<lambda>l. (l_user_id l, l_post_id l)) (likes s))
        then (Inl (Unique_violation ''likes_user_id_post_id_key''), s1)
      else if \<not> references uid (map u_id (users s))
        then (Inl (Foreign_key_violation ''likes_user_id_fkey''), s1)
      else if \<not> references pid (map p_id (posts s))
        then (Inl (Foreign_key_violation ''likes_post_id_fkey''), s1)
      else
        (let r = \<lparr>l_id = i, l_user_id = uid, l_post_id = pid,
                  l_created_at = clock s\<rparr>
         in (Inr r, s1\<lparr>likes := likes s @ [r]\<rparr>))))"

text \<open>
  An \<^verbatim>\<open>UPDATE\<close> writes the new version of a row after the rows of the table, so a
  query without \<^verbatim>\<open>ORDER BY\<close> returns the updated rows last.
\<close>

definition update_rows :: "('a \<Rightarrow> bool) \<Rightarrow> ('a \<Rightarrow> 'a) \<Rightarrow> 'a list \<Rightarrow> 'a list" where
  "update_rows P f rows = filter (\<lambda>r. \<not> P r) rows @ map f (filter P rows)"

section \<open>initDB\<close>

text \<open>
  The rows of \<^verbatim>\<open>INSERT INTO categories (name, description, color, icon) VALUES ...\<close>.
\<close>

definition default_categories :: "(string \<times> string \<times> string \<times> string) list" where
  "default_categories =
     [(''General Discussion'', ''Talk about anything related to our community'',
         ''#667eea'', ''chat''),
      (''Announcements'', ''Important updates and news'', ''#f56565'', ''megaphone''),
      (''Help & Support'', ''Get help from the community'', ''#48bb78'', ''help-circle''),
      (''Feature Requests'', ''Suggest new features and improvements'', ''#ed8936'',
         ''lightbulb'')]"

text \<open>
  The rows of that statement, one after the other.  \<^verbatim>\<open>ON CONFLICT DO NOTHING\<close> names
  no constraint, so it skips a row that collides on any unique index of the table; the
  table \<^verbatim>\<open>categories\<close> has one, its primary key \<^verbatim>\<open>id\<close>.
\<close>

fun categories_insert_or_nothing ::
  "(string \<times> string \<times> string \<times> string) list \<Rightarrow> store \<Rightarrow> (pg_error + unit) \<times> store" where
  "categories_insert_or_nothing [] s = (Inr (), s)"
| "categories_insert_or_nothing ((n, d, c, i) # rows) s =
     (case nextval (categories_seq s) of
        Inl err \<Rightarrow> (Inl err, s)
      | Inr k \<Rightarrow>
          categories_insert_or_nothing rows
            (if k \<in> set (map c_id (categories s)) then s\<lparr>categories_seq := k + 1\<rparr>
             else s\<lparr>categories_seq := k + 1,
                    categories := categories s @
                      [\<lparr>c_id = k, c_name = n, description = Some d,
                        color = Some c, icon = Some i, c_created_at = clock s\<rparr>]\<rparr>))"

text \<open>
  The statement stores all its rows or, when it fails, none; the values it took from
  the sequence stay taken.
\<close>

definition categories_insert_default :: "store \<Rightarrow> (pg_error + unit) \<times> store" where
  "categories_insert_default s =
     (case categories_insert_or_nothing default_categories s of
        (Inl err, s1) \<Rightarrow> (Inl err, s\<lparr>categories_seq := categories_seq s1\<rparr>)
      | (Inr u, s1) \<Rightarrow> (Inr u, s1))"

text \<open>
  \<^verbatim>\<open>INSERT INTO users ... VALUES ('admin', 'admin@nexus.com', $1, 'Forum Administrator')
  ON CONFLICT (username) DO NOTHING\<close>: a row with that username makes the statement a
  no-operation, after the parameter is cast and the sequence has given its value; any
  other violation is raised.
\<close>

definition users_insert_admin :: "store \<Rightarrow> string \<Rightarrow> (pg_error + unit) \<times> store" where
  "users_insert_admin s h =
     (case pg_text (Some h) of
        Inl err \<Rightarrow> (Inl err, s)
      | Inr _ \<Rightarrow>
     (case varchar 255 h of
        Inl err \<Rightarrow> (Inl err, s)
      | Inr _ \<Rightarrow>
     (case nextval (users_seq s) of
        Inl err \<Rightarrow> (Inl err, s)
      | Inr i \<Rightarrow>
        if ''admin'' \<in> set (map username (users s))
          then (Inr (), s\<lparr>users_seq := i + 1\<rparr>)
        else (case users_insert s (Some ''admin'') (Some ''admin@nexus.com'') (Some h)
                     (Some ''Forum Administrator'') of
                (Inl err, s1) \<Rightarrow> (Inl err, s1)
              | (Inr u, s1) \<Rightarrow> (Inr (), s1)))))"

text \<open>
  \<^verbatim>\<open>initDB\<close>: the tables exist after the \<^verbatim>\<open>CREATE TABLE IF NOT EXISTS\<close> statements
  (they change no existing table), then the two seeding statements run; an error in
  the first skips the second.  The \<^verbatim>\<open>catch\<close> logs an error and the server starts all
  the same, so the result is the database.
\<close>

definition initDB :: "env \<Rightarrow> store \<Rightarrow> store" where
  "initDB e s =
     (case categories_insert_default s of
        (Inl err, s1) \<Rightarrow> s1
      | (Inr _, s1) \<Rightarrow>
          (let adminPassword = bcrypt_hash e ''admin123''
           in snd (users_insert_admin s1 adminPassword)))"

section \<open>Responses\<close>

text \<open>The rows of the two topic queries: \<^verbatim>\<open>t.*\<close> and the joined columns.\<close>

record topic_row =
  tr_topic :: topic
  tr_username :: string
  tr_avatar_url :: "string option"
  tr_category_name :: "string option"
  tr_category_color :: "string option"
  tr_post_count :: nat
  tr_last_post_at :: "nat option"

record topic_detail =
  td_topic :: topic
  td_username :: string
  td_avatar_url :: "string option"
  td_user_bio :: "string option"
  td_category_name :: "string option"
  td_category_color :: "string option"

text \<open>
  The JSON bodies.  \<open>Error_message\<close> is \<^verbatim>\<open>{ error: '...' }\<close> with a text of the handler's,
  \<open>Error_thrown\<close> is \<^verbatim>\<open>{ error: err.message }\<close> for the exception caught.
\<close>

datatype body =
    Error_message string
  | Error_thrown failure
  | Healthy nat
  | Unhealthy string "string option"
  | Registered int string string string
  | Logged_in int string string "string option" "string option" string
  | Category_rows "(category \<times> nat) list"
  | Topic_rows "topic_row list"
  | Topic_detail topic_detail
  | Topic_created topic
  | Post_rows "(post \<times> string \<times> string option \<times> nat) list"
  | Post_created post
  | Liked bool
  | Stats_row nat nat nat nat

record response =
  status :: nat
  body :: body

text \<open>\<^verbatim>\<open>res.json(b)\<close> and \<^verbatim>\<open>res.status(n).json(b)\<close>\<close>

definition res_json :: "body \<Rightarrow> response" where
  "res_json b = \<lparr>status = 200, body = b\<rparr>"

definition res_status_json :: "nat \<Rightarrow> body \<Rightarrow> response" where
  "res_status_json n b = \<lparr>status = n, body = b\<rparr>"

section \<open>The handlers\<close>

subsection \<open>GET /api/health\<close>

text \<open>
  The one handler modelled with a database that may not answer: \<open>Inl err\<close> is a pool
  whose queries throw \<open>err\<close>, \<open>Inr s\<close> a database that answers.
\<close>

record js_error =
  message :: string
  stack :: string

definition health :: "env \<Rightarrow> js_error + store \<Rightarrow> response" where
  "health e pool =
     (case pool of
        Inr s \<Rightarrow> res_json (Healthy (length (categories s)))
      | Inl err \<Rightarrow>
          res_json (Unhealthy (message err)
            (if NODE_ENV e \<noteq> Some ''production'' then Some (stack err) else None)))"

subsection \<open>POST /api/register\<close>

definition register ::
  "env \<Rightarrow> store \<Rightarrow> string option \<Rightarrow> string option \<Rightarrow> string option
     \<Rightarrow> response \<times> store" where
  "register e s un em pw =
     (case pw of
        None \<Rightarrow> (res_status_json 400 (Error_thrown Bcrypt_illegal_arguments), s)
      | Some p \<Rightarrow>
     (case pg_text un of
        Inl err \<Rightarrow> (res_status_json 400 (Error_thrown (Pg err)), s)
      | Inr un1 \<Rightarrow>
     (case pg_text em of
        Inl err \<Rightarrow> (res_status_json 400 (Error_thrown (Pg err)), s)
      | Inr em1 \<Rightarrow>
     (case pg_text (Some (bcrypt_hash e p)) of
        Inl err \<Rightarrow> (res_status_json 400 (Error_thrown (Pg err)), s)
      | Inr hash \<Rightarrow>
     (case users_insert s un1 em1 hash None of
        (Inl err, s1) \<Rightarrow> (res_status_json 400 (Error_thrown (Pg err)), s1)
      | (Inr u, s1) \<Rightarrow>
          (res_json (Registered (u_id u) (username u) (email u)
                       (jwt_sign e (u_id u) (username u) (secret e))), s1))))))"

subsection \<open>POST /api/login\<close>

text \<open>
  \<^verbatim>\<open>SELECT * FROM users WHERE username = $1 OR email = $1\<close>; a NULL parameter matches
  no row.  \<^verbatim>\<open>result.rows[0]\<close> is the first match in the order of the table.
\<close>

definition users_by_login :: "store \<Rightarrow> string option \<Rightarrow> user list" where
  "users_by_login s ident =
     (case ident of
        None \<Rightarrow> []
      | Some x \<Rightarrow> filter (\<lambda>u. username u = x \<or> email u = x) (users s))"

text \<open>\<^verbatim>\<open>UPDATE users SET last_seen = CURRENT_TIMESTAMP WHERE id = $1\<close>\<close>

definition touch_last_seen :: "int \<Rightarrow> store \<Rightarrow> store" where
  "touch_last_seen i s =
     s\<lparr>users := update_rows (\<lambda>u. u_id u = i) (\<lambda>u. u\<lparr>last_seen := clock s\<rparr>) (users s)\<rparr>"

definition login ::
  "env \<Rightarrow> store \<Rightarrow> string option \<Rightarrow> string option \<Rightarrow> response \<times> store" where
  "login e s ident pw =
     (case pg_text ident of
        Inl err \<Rightarrow> (res_status_json 500 (Error_thrown (Pg err)), s)
      | Inr ident1 \<Rightarrow>
     (case users_by_login s ident1 of
        [] \<Rightarrow> (res_status_json 401 (Error_message ''Invalid credentials''), s)
      | u # _ \<Rightarrow>
          (case pw of
             None \<Rightarrow> (res_status_json 500 (Error_thrown Bcrypt_illegal_arguments), s)
           | Some p \<Rightarrow>
               if \<not> bcrypt_compare e p (password_hash u)
                 then (res_status_json 401 (Error_message ''Invalid credentials''), s)
               else
                 (res_json (Logged_in (u_id u) (username u) (email u) (avatar_url u) (bio u)
                              (jwt_sign e (u_id u) (username u) (secret e))),
                  touch_last_seen (u_id u) s))))"

subsection \<open>GET /api/categories\<close>

text \<open>\<^verbatim>\<open>ORDER BY\<close>: a stable insertion sort, so rows that compare equal keep the table's order.\<close>

fun insert_by :: "('a \<Rightarrow> 'a \<Rightarrow> bool) \<Rightarrow> 'a \<Rightarrow> 'a list \<Rightarrow> 'a list" where
  "insert_by le x [] = [x]"
| "insert_by le x (y # ys) = (if le x y then x # y # ys else y # insert_by le x ys)"

definition sort_by :: "('a \<Rightarrow> 'a \<Rightarrow> bool) \<Rightarrow> 'a list \<Rightarrow> 'a list" where
  "sort_by le xs = foldr (insert_by le) xs []"

definition list_categories :: "store \<Rightarrow> response" where
  "list_categories s =
     res_json (Category_rows
       (sort_by (\<lambda>a b. c_id (fst a) \<le> c_id (fst b))
          (map (\<lambda>c. (c, length (remdups (map t_id
                          (filter (\<lambda>t. category_id t = Some (c_id c)) (topics s))))))
               (categories s))))"

subsection \<open>GET /api/topics\<close>

text \<open>\<^verbatim>\<open>LEFT JOIN categories c ON t.category_id = c.id\<close>\<close>

definition category_of :: "store \<Rightarrow> topic \<Rightarrow> category option list" where
  "category_of s t =
     (case filter (\<lambda>c. category_id t = Some (c_id c)) (categories s) of
        [] \<Rightarrow> [None]
      | cs \<Rightarrow> map Some cs)"

text \<open>\<^verbatim>\<open>JOIN users u ON t.user_id = u.id\<close>\<close>

definition author_of :: "store \<Rightarrow> topic \<Rightarrow> user list" where
  "author_of s t = filter (\<lambda>u. t_user_id t = Some (u_id u)) (users s)"

text \<open>\<^verbatim>\<open>LEFT JOIN posts p ON p.topic_id = t.id\<close>, for the two aggregates.\<close>

definition posts_of :: "store \<Rightarrow> topic \<Rightarrow> post list" where
  "posts_of s t = filter (\<lambda>p. topic_id p = Some (t_id t)) (posts s)"

definition max_created_at :: "post list \<Rightarrow> nat option" where
  "max_created_at ps =
     (case map p_created_at ps of [] \<Rightarrow> None | x # xs \<Rightarrow> Some (fold max xs x))"

text \<open>
  The grouped rows before \<^verbatim>\<open>ORDER BY\<close>; the primary keys make each joined
  topic, author and category a group of its own.
\<close>

definition topic_rows :: "store \<Rightarrow> (topic \<Rightarrow> bool) \<Rightarrow> topic_row list" where
  "topic_rows s wh =
     concat (map (\<lambda>t.
       concat (map (\<lambda>u.
         map (\<lambda>c. \<lparr>tr_topic = t, tr_username = username u, tr_avatar_url = avatar_url u,
                    tr_category_name = map_option c_name c,
                    tr_category_color = Option.bind c color,
                    tr_post_count = length (remdups (map p_id (posts_of s t))),
                    tr_last_post_at = max_created_at (posts_of s t)\<rparr>)
             (category_of s t))
         (author_of s t)))
       (filter wh (topics s)))"

text \<open>\<^verbatim>\<open>ORDER BY t.is_pinned DESC, t.created_at DESC\<close>\<close>

definition pinned_then_newest :: "topic \<Rightarrow> topic \<Rightarrow> bool" where
  "pinned_then_newest a b =
     ((is_pinned a \<and> \<not> is_pinned b)
      \<or> (is_pinned a = is_pinned b \<and> t_created_at b \<le> t_created_at a))"

text \<open>
  JavaScript computes \<^verbatim>\<open>(page - 1) * limit\<close> on doubles.  A whole number becomes the
  nearest double, the even one of two that are as near; up to \<open>2\<^sup>5\<^sup>3\<close> that is the
  number itself, and from \<open>2\<^sup>1\<^sup>0\<^sup>2\<^sup>4\<close> on it is an infinity, which is \<open>None\<close> here.
\<close>

fun bit_length :: "nat \<Rightarrow> nat" where
  "bit_length n = (if n = 0 then 0 else Suc (bit_length (n div 2)))"

declare bit_length.simps [simp del]

definition to_double :: "int \<Rightarrow> int option" where
  "to_double x =
     (let m = nat \<bar>x\<bar> in
      if m \<le> 9007199254740992 then Some x
      else
        (let sh = bit_length m - 53;
             q = m div 2 ^ sh;
             r = m mod 2 ^ sh;
             q1 = (if 2 ^ (sh - 1) < r \<or> (r = 2 ^ (sh - 1) \<and> odd q) then q + 1 else q);
             y = q1 * 2 ^ sh
         in if 2 ^ 1024 \<le> y then None else Some (if x < 0 then - int y else int y)))"

text \<open>
  \<^verbatim>\<open>(page - 1) * limit\<close>; an infinity stays one or becomes \<^verbatim>\<open>NaN\<close>, both \<open>None\<close>.
\<close>

definition js_offset :: "int \<Rightarrow> int \<Rightarrow> int option" where
  "js_offset page limit =
     (case to_double page of
        None \<Rightarrow> None
      | Some p \<Rightarrow>
     (case to_double (p - 1) of
        None \<Rightarrow> None
      | Some p1 \<Rightarrow>
     (case to_double limit of
        None \<Rightarrow> None
      | Some l \<Rightarrow> to_double (p1 * l))))"

text \<open>
  The query string is modelled with \<^verbatim>\<open>page\<close> and \<^verbatim>\<open>limit\<close> being the integers that
  their decimal digits denote (\<open>None\<close> when absent, which the destructuring replaces by
  1 and 20); \<^verbatim>\<open>category\<close> is the text itself.  The \<^verbatim>\<open>WHERE\<close> clause is added when
  \<^verbatim>\<open>category\<close> is truthy.  The limit is sent as it came, the offset as JavaScript
  prints the number, with an exponent from \<open>10\<^sup>2\<^sup>1\<close> on; PostgreSQL reads both as
  64-bit integers and refuses a negative \<^verbatim>\<open>OFFSET\<close> or \<^verbatim>\<open>LIMIT\<close>.
\<close>

definition list_topics :: "env \<Rightarrow> store \<Rightarrow> jsval \<Rightarrow> int option \<Rightarrow> int option \<Rightarrow> response" where
  "list_topics e s category page limit =
     (let page1 = (case page of None \<Rightarrow> 1 | Some p \<Rightarrow> p);
          limit1 = (case limit of None \<Rightarrow> 20 | Some l \<Rightarrow> l)
      in case (if truthy category then pg_int e category else Inr None) of
           Inl err \<Rightarrow> res_status_json 500 (Error_thrown (Pg err))
         | Inr cat \<Rightarrow>
             if \<not> in_int8 limit1
               then res_status_json 500 (Error_thrown (Pg Numeric_value_out_of_range))
             else
               (case js_offset page1 limit1 of
                  None \<Rightarrow> res_status_json 500 (Error_thrown (Pg Invalid_text_representation))
                | Some offset \<Rightarrow>
                    if 1000000000000000000000 \<le> \<bar>offset\<bar>
                      then res_status_json 500 (Error_thrown (Pg Invalid_text_representation))
                    else if \<not> in_int8 offset
                      then res_status_json 500 (Error_thrown (Pg Numeric_value_out_of_range))
                    else if offset < 0
                      then res_status_json 500 (Error_thrown (Pg Invalid_row_count_in_offset))
                    else if limit1 < 0
                      then res_status_json 500 (Error_thrown (Pg Invalid_row_count_in_limit))
                    else res_json (Topic_rows
                           (take (nat limit1) (drop (nat offset)
                              (sort_by (\<lambda>a b. pinned_then_newest (tr_topic a) (tr_topic b))
                                 (topic_rows s
                                    (\<lambda>t. truthy category \<longrightarrow>
                                           cat \<noteq> None \<and> category_id t = cat))))))))"

subsection \<open>GET /api/topics/:id\<close>

text \<open>
  \<^verbatim>\<open>UPDATE topics SET views = views + 1 WHERE id = $1\<close>; the sum has to be an
  \<^verbatim>\<open>INTEGER\<close>, or the statement fails and changes nothing.
\<close>

definition bump_views :: "int \<Rightarrow> store \<Rightarrow> pg_error + store" where
  "bump_views i s =
     (if \<exists>t\<in>set (topics s). t_id t = i \<and> \<not> in_int4 (views t + 1)
        then Inl Numeric_value_out_of_range
      else Inr (s\<lparr>topics := update_rows (\<lambda>t. t_id t = i) (\<lambda>t. t\<lparr>views := views t + 1\<rparr>)
                              (topics s)\<rparr>))"

definition topic_details :: "store \<Rightarrow> int \<Rightarrow> topic_detail list" where
  "topic_details s i =
     concat (map (\<lambda>t.
       concat (map (\<lambda>u.
         map (\<lambda>c. \<lparr>td_topic = t, td_username = username u, td_avatar_url = avatar_url u,
                    td_user_bio = bio u, td_category_name = map_option c_name c,
                    td_category_color = Option.bind c color\<rparr>)
             (category_of s t))
         (author_of s t)))
       (filter (\<lambda>t. t_id t = i) (topics s)))"

definition get_topic :: "env \<Rightarrow> store \<Rightarrow> string \<Rightarrow> response \<times> store" where
  "get_topic e s ident =
     (case int4_in e ident of
        Inl err \<Rightarrow> (res_status_json 500 (Error_thrown (Pg err)), s)
      | Inr i \<Rightarrow>
     (case bump_views i s of
        Inl err \<Rightarrow> (res_status_json 500 (Error_thrown (Pg err)), s)
      | Inr s1 \<Rightarrow>
          (case topic_details s1 i of
             [] \<Rightarrow> (res_status_json 404 (Error_message ''Topic not found''), s1)
           | r # _ \<Rightarrow> (res_json (Topic_detail r), s1))))"

subsection \<open>POST /api/topics\<close>

definition create_topic ::
  "env \<Rightarrow> store \<Rightarrow> string option \<Rightarrow> string option \<Rightarrow> jsval \<Rightarrow> jsval \<Rightarrow> response \<times> store" where
  "create_topic e s ti co category user_id =
     (case pg_text ti of
        Inl err \<Rightarrow> (res_status_json 400 (Error_thrown (Pg err)), s)
      | Inr ti1 \<Rightarrow>
     (case pg_text co of
        Inl err \<Rightarrow> (res_status_json 400 (Error_thrown (Pg err)), s)
      | Inr co1 \<Rightarrow>
     (case pg_int e category of
        Inl err \<Rightarrow> (res_status_json 400 (Error_thrown (Pg err)), s)
      | Inr cat \<Rightarrow>
     (case pg_int e (js_or user_id (JNum 1)) of
        Inl err \<Rightarrow> (res_status_json 400 (Error_thrown (Pg err)), s)
      | Inr uid \<Rightarrow>
     (case topics_insert s ti1 co1 cat uid of
        (Inl err, s1) \<Rightarrow> (res_status_json 400 (Error_thrown (Pg err)), s1)
      | (Inr r, s1) \<Rightarrow> (res_json (Topic_created r), s1))))))"

subsection \<open>GET /api/topics/:id/posts\<close>

definition list_posts :: "env \<Rightarrow> store \<Rightarrow> string \<Rightarrow> response" where
  "list_posts e s ident =
     (case int4_in e ident of
        Inl err \<Rightarrow> res_status_json 500 (Error_thrown (Pg err))
      | Inr i \<Rightarrow>
          res_json (Post_rows
            (sort_by (\<lambda>a b. p_created_at (fst a) \<le> p_created_at (fst b))
               (concat (map (\<lambda>p.
                  map (\<lambda>u. (p, username u, avatar_url u,
                             length (filter (\<lambda>l. l_post_id l = Some (p_id p)) (likes s))))
                      (filter (\<lambda>u. p_user_id p = Some (u_id u)) (users s)))
                  (filter (\<lambda>p. topic_id p = Some i) (posts s)))))))"

subsection \<open>POST /api/posts\<close>

text \<open>\<^verbatim>\<open>UPDATE topics SET updated_at = CURRENT_TIMESTAMP WHERE id = $1\<close>\<close>

definition touch_topic :: "int option \<Rightarrow> store \<Rightarrow> store" where
  "touch_topic tid s =
     s\<lparr>topics := update_rows (\<lambda>t. Some (t_id t) = tid) (\<lambda>t. t\<lparr>t_updated_at := clock s\<rparr>)
                     (topics s)\<rparr>"

definition create_post ::
  "env \<Rightarrow> store \<Rightarrow> string option \<Rightarrow> jsval \<Rightarrow> jsval \<Rightarrow> jsval \<Rightarrow> response \<times> store" where
  "create_post e s co topic user_id parent =
     (case pg_text co of
        Inl err \<Rightarrow> (res_status_json 400 (Error_thrown (Pg err)), s)
      | Inr co1 \<Rightarrow>
     (case pg_int e topic of
        Inl err \<Rightarrow> (res_status_json 400 (Error_thrown (Pg err)), s)
      | Inr tid \<Rightarrow>
     (case pg_int e (js_or user_id (JNum 1)) of
        Inl err \<Rightarrow> (res_status_json 400 (Error_thrown (Pg err)), s)
      | Inr uid \<Rightarrow>
     (case pg_int e parent of
        Inl err \<Rightarrow> (res_status_json 400 (Error_thrown (Pg err)), s)
      | Inr par \<Rightarrow>
     (case posts_insert s co1 tid uid par of
        (Inl err, s1) \<Rightarrow> (res_status_json 400 (Error_thrown (Pg err)), s1)
      | (Inr r, s1) \<Rightarrow> (res_json (Post_created r), touch_topic tid s1))))))"

subsection \<open>POST /api/posts/:id/like\<close>

text \<open>The rows of \<^verbatim>\<open>WHERE user_id = $1 AND post_id = $2\<close>; NULL equals nothing.\<close>

definition like_matches :: "int option \<Rightarrow> int \<Rightarrow> like \<Rightarrow> bool" where
  "like_matches uid pid l = (uid \<noteq> None \<and> l_user_id l = uid \<and> l_post_id l = Some pid)"

text \<open>
  \<^verbatim>\<open>UPDATE posts SET likes = likes + d WHERE id = $1\<close>; the sum has to be an
  \<^verbatim>\<open>INTEGER\<close>, or the statement fails and changes nothing.
\<close>

definition add_likes :: "int \<Rightarrow> int \<Rightarrow> store \<Rightarrow> pg_error + store" where
  "add_likes d pid s =
     (if \<exists>p\<in>set (posts s). p_id p = pid \<and> \<not> in_int4 (likes_count p + d)
        then Inl Numeric_value_out_of_range
      else Inr (s\<lparr>posts := update_rows (\<lambda>p. p_id p = pid)
                             (\<lambda>p. p\<lparr>likes_count := likes_count p + d\<rparr>) (posts s)\<rparr>))"

text \<open>
  The statements are not in a transaction: when the \<^verbatim>\<open>UPDATE\<close> fails, the
  \<^verbatim>\<open>DELETE\<close> or the \<^verbatim>\<open>INSERT\<close> before it stays done.
\<close>

definition toggle_like :: "env \<Rightarrow> store \<Rightarrow> jsval \<Rightarrow> string \<Rightarrow> response \<times> store" where
  "toggle_like e s user_id post_id =
     (case pg_int e (js_or user_id (JNum 1)) of
        Inl err \<Rightarrow> (res_status_json 500 (Error_thrown (Pg err)), s)
      | Inr uid \<Rightarrow>
     (case int4_in e post_id of
        Inl err \<Rightarrow> (res_status_json 500 (Error_thrown (Pg err)), s)
      | Inr pid \<Rightarrow>
          if filter (like_matches uid pid) (likes s) \<noteq> []
            then
              (let s1 = s\<lparr>likes := filter (\<lambda>l. \<not> like_matches uid pid l) (likes s)\<rparr> in
               case add_likes (- 1) pid s1 of
                 Inl err \<Rightarrow> (res_status_json 500 (Error_thrown (Pg err)), s1)
               | Inr s2 \<Rightarrow> (res_json (Liked False), s2))
          else
            (case likes_insert s uid (Some pid) of
               (Inl err, s1) \<Rightarrow> (res_status_json 500 (Error_thrown (Pg err)), s1)
             | (Inr r, s1) \<Rightarrow>
                 (case add_likes 1 pid s1 of
                    Inl err \<Rightarrow> (res_status_json 500 (Error_thrown (Pg err)), s1)
                  | Inr s2 \<Rightarrow> (res_json (Liked True), s2)))))"

subsection \<open>GET /api/stats\<close>

definition stats :: "store \<Rightarrow> response" where
  "stats s =
     res_json (Stats_row (length (users s)) (length (topics s)) (length (posts s))
       (length (filter (\<lambda>u. int (clock s) - 86400 < int (last_seen u)) (users s))))"

section \<open>Sequences of requests\<close>

datatype request =
    Health
  | Register "string option" "string option" "string option"
  | Login "string option" "string option"
  | List_categories
  | List_topics jsval "int option" "int option"
  | Get_topic string
  | Create_topic "string option" "string option" jsval jsval
  | List_posts string
  | Create_post "string option" jsval jsval jsval
  | Toggle_like jsval string
  | Get_stats

fun handle :: "env \<Rightarrow> store \<Rightarrow> request \<Rightarrow> response \<times> store" where
  "handle e s Health = (health e (Inr s), s)"
| "handle e s (Register un em pw) = register e s un em pw"
| "handle e s (Login ident pw) = login e s ident pw"
| "handle e s List_categories = (list_categories s, s)"
| "handle e s (List_topics category page limit) = (list_topics e s category page limit, s)"
| "handle e s (Get_topic ident) = get_topic e s ident"
| "handle e s (Create_topic ti co category user_id) = create_topic e s ti co category user_id"
| "handle e s (List_posts ident) = (list_posts e s ident, s)"
| "handle e s (Create_post co topic user_id parent) = create_post e s co topic user_id parent"
| "handle e s (Toggle_like user_id post_id) = toggle_like e s user_id post_id"
| "handle e s Get_stats = (stats s, s)"

text \<open>
  Requests served one after the other, each after some time has passed; the
  responses in order and the database at the end.
\<close>

fun serve :: "env \<Rightarrow> store \<Rightarrow> (nat \<times> request) list \<Rightarrow> response list \<times> store" where
  "serve e s [] = ([], s)"
| "serve e s ((dt, r) # rs) =
     (case handle e (tick dt s) r of
        (res, s1) \<Rightarrow> (case serve e s1 rs of (ress, s2) \<Rightarrow> (res # ress, s2)))"

section \<open>What the database keeps true\<close>

text \<open>
  The constraints of the schema that the proofs below use, and what the handlers add
  to them: a topic always has an author (\<^verbatim>\<open>user_id || 1\<close> is never NULL), a like row
  always names its user and its post, and no \<^verbatim>\<open>last_seen\<close> lies in the future.
\<close>

definition users_ok :: "store \<Rightarrow> bool" where
  "users_ok s =
     (distinct (map u_id (users s))
      \<and> (\<forall>u\<in>set (users s).
            length (username u) \<le> 50 \<and> length (email u) \<le> 100 \<and> last_seen u \<le> clock s))"

definition categories_ok :: "store \<Rightarrow> bool" where
  "categories_ok s = distinct (map c_id (categories s))"

definition topics_ok :: "store \<Rightarrow> bool" where
  "topics_ok s =
     (distinct (map t_id (topics s))
      \<and> (\<forall>t\<in>set (topics s). t_user_id t \<in> Some ` set (map u_id (users s))))"

text \<open>The two columns of \<^verbatim>\<open>UNIQUE(user_id, post_id)\<close>.\<close>

definition like_key :: "like \<Rightarrow> int option \<times> int option" where
  "like_key l = (l_user_id l, l_post_id l)"

definition likes_ok :: "store \<Rightarrow> bool" where
  "likes_ok s =
     (distinct (map like_key (likes s))
      \<and> (\<forall>l\<in>set (likes s).
            l_id l < likes_seq s
            \<and> l_user_id l \<in> Some ` set (map u_id (users s))
            \<and> l_post_id l \<in> Some ` set (map p_id (posts s))))"

text \<open>
  \<^verbatim>\<open>SELECT COUNT(*) FROM likes WHERE post_id = p.id\<close>, and the \<^verbatim>\<open>likes\<close> column of
  every post agreeing with it.
\<close>

definition like_rows :: "store \<Rightarrow> int \<Rightarrow> nat" where
  "like_rows s pid = length (filter (\<lambda>l. l_post_id l = Some pid) (likes s))"

definition counters_ok :: "store \<Rightarrow> bool" where
  "counters_ok s = (\<forall>p\<in>set (posts s). likes_count p = int (like_rows s (p_id p)))"

definition consistent :: "store \<Rightarrow> bool" where
  "consistent s =
     (users_ok s \<and> categories_ok s \<and> topics_ok s \<and> likes_ok s \<and> counters_ok s)"

text \<open>Whether the user has a like row on the post.\<close>

definition liked :: "store \<Rightarrow> int \<Rightarrow> int \<Rightarrow> bool" where
  "liked s uid pid = (\<exists>l\<in>set (likes s). l_user_id l = Some uid \<and> l_post_id l = Some pid)"

text \<open>The rows of the five tables, without the sequences and the clock.\<close>

definition tables ::
  "store \<Rightarrow> user list \<times> category list \<times> topic list \<times> post list \<times> like list" where
  "tables s = (users s, categories s, topics s, posts s, likes s)"

text \<open>
  What \<^verbatim>\<open>GET /api/topics/:id\<close> adds to the topic row: the author's name, avatar and
  bio, and the name and colour of the category if the topic has one.
\<close>

definition enriched :: "store \<Rightarrow> topic \<Rightarrow> topic_detail \<Rightarrow> bool" where
  "enriched s t d =
     (td_topic d = t
      \<and> (\<exists>u\<in>set (users s). t_user_id t = Some (u_id u) \<and> td_username d = username u
             \<and> td_avatar_url d = avatar_url u \<and> td_user_bio d = bio u)
      \<and> td_category_name d
           = map_option c_name (find (\<lambda>c. category_id t = Some (c_id c)) (categories s))
      \<and> td_category_color d
           = Option.bind (find (\<lambda>c. category_id t = Some (c_id c)) (categories s)) color)"

text \<open>
  User 1 is the administrator: \<^verbatim>\<open>initDB\<close> stores that row first on an empty
  database, and no handler removes or renames a user.
\<close>

definition admin_is_user_1 :: "store \<Rightarrow> bool" where
  "admin_is_user_1 s = (\<exists>u\<in>set (users s). u_id u = 1 \<and> username u = ''admin'')"

text \<open>
  What the sequences and the 32-bit columns add: an id was handed out by the sequence
  before the sequence's present value, the ids of the like rows are positive and
  differ, the sequence of \<^verbatim>\<open>likes\<close> has only overrun its last value by one, and no
  view counter is negative.
\<close>

definition bounded :: "store \<Rightarrow> bool" where
  "bounded s =
     ((\<forall>t\<in>set (topics s). t_id t < topics_seq s \<and> 0 \<le> views t)
      \<and> (\<forall>p\<in>set (posts s). p_id p < posts_seq s)
      \<and> distinct (map l_id (likes s))
      \<and> (\<forall>l\<in>set (likes s). 1 \<le> l_id l)
      \<and> 1 \<le> likes_seq s \<and> likes_seq s \<le> 2147483648)"

section \<open>An environment and a database for the examples\<close>

text \<open>
  Decimal integers for \<open>int_in\<close>; a hash of at most bcrypt's sixty characters that keeps the
  password readable; a token that shows its payload.
\<close>

definition digit :: "char \<Rightarrow> nat option" where
  "digit c =
     (let n = (of_char c :: nat) in if 48 \<le> n \<and> n \<le> 57 then Some (n - 48) else None)"

fun digits :: "string \<Rightarrow> nat \<Rightarrow> nat option" where
  "digits [] acc = Some acc"
| "digits (c # cs) acc =
     (case digit c of None \<Rightarrow> None | Some d \<Rightarrow> digits cs (10 * acc + d))"

definition decimal :: "string \<Rightarrow> int option" where
  "decimal t =
     (case t of
        [] \<Rightarrow> None
      | c # cs \<Rightarrow>
          if c = CHR ''-''
            then (if cs = [] then None else map_option (\<lambda>n. - int n) (digits cs 0))
          else map_option int (digits t 0))"

definition example_hash :: "string \<Rightarrow> string" where
  "example_hash p = take 60 (''$2a$10$'' @ p)"

definition example_env :: env where
  "example_env =
     \<lparr>int_in = decimal, bcrypt_hash = example_hash,
      bcrypt_compare = (\<lambda>p h. h = example_hash p),
      jwt_sign = (\<lambda>i n k. n @ ''.'' @ k), JWT_SECRET = None, NODE_ENV = None\<rparr>"

text \<open>
  The scenario of the specification: the server starts on an empty database at time 0,
  the administrator opens a topic and replies to it, a second user registers and likes
  the reply; \<open>example_store\<close> is the database after that.
\<close>

definition example_requests :: "(nat \<times> request) list" where
  "example_requests =
     [(1, Create_topic (Some ''Hi'') (Some ''Hello'') (JNum 1) (JNum 1)),
      (1, Create_post (Some ''Reply'') (JNum 1) (JNum 1) JUndefined),
      (1, Register (Some ''bob'') (Some ''bob@nexus.com'') (Some ''hunter2'')),
      (1, Toggle_like (JNum 2) ''1'')]"

definition example_store :: store where
  "example_store =
     \<lparr>users =
        [\<lparr>u_id = 1, username = ''admin'', email = ''admin@nexus.com'',
          password_hash = ''$2a$10$admin123'', avatar_url = None,
          bio = Some ''Forum Administrator'', u_created_at = 0, last_seen = 0\<rparr>,
         \<lparr>u_id = 2, username = ''bob'', email = ''bob@nexus.com'',
          password_hash = ''$2a$10$hunter2'', avatar_url = None, bio = None,
          u_created_at = 3, last_seen = 3\<rparr>],
      categories =
        [\<lparr>c_id = 1, c_name = ''General Discussion'',
          description = Some ''Talk about anything related to our community'',
          color = Some ''#667eea'', icon = Some ''chat'', c_created_at = 0\<rparr>,
         \<lparr>c_id = 2, c_name = ''Announcements'',
          description = Some ''Important updates and news'',
          color = Some ''#f56565'', icon = Some ''megaphone'', c_created_at = 0\<rparr>,
         \<lparr>c_id = 3, c_name = ''Help & Support'',
          description = Some ''Get help from the community'',
          color = Some ''#48bb78'', icon = Some ''help-circle'', c_created_at = 0\<rparr>,
         \<lparr>c_id = 4, c_name = ''Feature Requests'',
          description = Some ''Suggest new features and improvements'',
          color = Some ''#ed8936'', icon = Some ''lightbulb'', c_created_at = 0\<rparr>],
      topics =
        [\<lparr>t_id = 1, title = ''Hi'', t_content = ''Hello'', t_user_id = Some 1,
          category_id = Some 1, views = 0, is_pinned = False, is_locked = False,
          t_created_at = 1, t_updated_at = 2\<rparr>],
      posts =
        [\<lparr>p_id = 1, p_content = ''Reply'', topic_id = Some 1, p_user_id = Some 1,
          parent_id = None, likes_count = 1, p_created_at = 2, p_updated_at = 2\<rparr>],
      likes = [\<lparr>l_id = 1, l_user_id = Some 2, l_post_id = Some 1, l_created_at = 4\<rparr>],
      users_seq = 3, categories_seq = 5, topics_seq = 2, posts_seq = 2, likes_seq = 2,
      clock = 4\<rparr>"

text \<open>
  Then a third user registers, with the second user's email as username;
  \<open>namesake_store\<close> is the database after that.
\<close>

definition namesake_request :: "nat \<times> request" where
  "namesake_request =
     (1, Register (Some ''bob@nexus.com'') (Some ''eve@nexus.com'') (Some ''evepw''))"

definition namesake_store :: store where
  "namesake_store =
     example_store
       \<lparr>users := users example_store @
          [\<lparr>u_id = 3, username = ''bob@nexus.com'', email = ''eve@nexus.com'',
            password_hash = ''$2a$10$evepw'', avatar_url = None, bio = None,
            u_created_at = 5, last_seen = 5\<rparr>],
        users_seq := 4, clock := 5\<rparr>"

text \<open>The example database when the topic has been fetched \<open>2\<^sup>3\<^sup>1 - 1\<close> times.\<close>

definition viewed_store :: store where
  "viewed_store =
     example_store\<lparr>topics := map (\<lambda>t. t\<lparr>views := 2147483647\<rparr>) (topics example_store)\<rparr>"

section \<open>The statements, case by case\<close>

lemma pg_text_Inr: "pg_text v = Inr w \<Longrightarrow> w = v"
  by (auto simp: pg_text_def split: option.splits if_splits)

lemma pg_text_clean: "CHR 0x00 \<notin> set t \<Longrightarrow> pg_text (Some t) = Inr (Some t)"
  by (simp add: pg_text_def)

lemma varchar_length: "varchar n t = Inr t' \<Longrightarrow> length t' \<le> n"
  by (auto simp: varchar_def split: if_splits)

lemma varchar_param_length: "varchar_param n v = Inr (Some t') \<Longrightarrow> length t' \<le> n"
  by (auto simp: varchar_param_def split: option.splits sum.splits dest: varchar_length)

lemma varchar_fits: "length t \<le> n \<Longrightarrow> varchar_param n (Some t) = Inr (Some t)"
  by (simp add: varchar_param_def varchar_def)

lemma varchar_param_None: "varchar_param n None = Inr None"
  by (simp add: varchar_param_def)

lemma nextval_Inr: "nextval n = Inr i \<Longrightarrow> i = n \<and> n \<le> 2147483647"
  by (auto simp: nextval_def split: if_splits)

lemma users_insert_Inl:
  "users_insert s un em ph b = (Inl err, s1) \<Longrightarrow>
     s1 = s \<or> s1 = s\<lparr>users_seq := users_seq s + 1\<rparr>"
  by (auto simp: users_insert_def Let_def split: sum.splits option.splits if_splits
        dest!: nextval_Inr)

lemma users_insert_Inr:
  "users_insert s un em ph b = (Inr u, s1) \<Longrightarrow>
     s1 = s\<lparr>users_seq := users_seq s + 1, users := users s @ [u]\<rparr>
     \<and> u_id u = users_seq s
     \<and> users_seq s \<le> 2147483647
     \<and> u_id u \<notin> set (map u_id (users s))
     \<and> username u \<notin> set (map username (users s))
     \<and> email u \<notin> set (map email (users s))
     \<and> varchar_param 50 un = Inr (Some (username u))
     \<and> varchar_param 100 em = Inr (Some (email u))
     \<and> varchar_param 255 ph = Inr (Some (password_hash u))
     \<and> avatar_url u = None \<and> bio u = b
     \<and> u_created_at u = clock s \<and> last_seen u = clock s"
  by (auto simp: users_insert_def Let_def split: sum.splits option.splits if_splits
        dest!: nextval_Inr)

lemma topics_insert_Inl:
  "topics_insert s ti co cat uid = (Inl err, s1) \<Longrightarrow>
     s1 = s \<or> s1 = s\<lparr>topics_seq := topics_seq s + 1\<rparr>"
  by (auto simp: topics_insert_def Let_def split: sum.splits option.splits if_splits
        dest!: nextval_Inr)

lemma topics_insert_Inr:
  "topics_insert s ti co cat uid = (Inr t, s1) \<Longrightarrow>
     s1 = s\<lparr>topics_seq := topics_seq s + 1, topics := topics s @ [t]\<rparr>
     \<and> t_id t = topics_seq s
     \<and> topics_seq s \<le> 2147483647
     \<and> t_id t \<notin> set (map t_id (topics s))
     \<and> t_user_id t = uid \<and> category_id t = cat
     \<and> references uid (map u_id (users s))
     \<and> references cat (map c_id (categories s))
     \<and> varchar_param 200 ti = Inr (Some (title t))
     \<and> co = Some (t_content t)
     \<and> views t = 0 \<and> \<not> is_pinned t \<and> \<not> is_locked t
     \<and> t_created_at t = clock s \<and> t_updated_at t = clock s"
  by (auto simp: topics_insert_def Let_def split: sum.splits option.splits if_splits
        dest!: nextval_Inr)

lemma posts_insert_Inl:
  "posts_insert s co tid uid par = (Inl err, s1) \<Longrightarrow>
     s1 = s \<or> s1 = s\<lparr>posts_seq := posts_seq s + 1\<rparr>"
  by (auto simp: posts_insert_def Let_def split: sum.splits option.splits if_splits
        dest!: nextval_Inr)

lemma posts_insert_Inr:
  "posts_insert s co tid uid par = (Inr p, s1) \<Longrightarrow>
     s1 = s\<lparr>posts_seq := posts_seq s + 1, posts := posts s @ [p]\<rparr>
     \<and> p_id p = posts_seq s
     \<and> posts_seq s \<le> 2147483647
     \<and> p_id p \<notin> set (map p_id (posts s))
     \<and> topic_id p = tid \<and> p_user_id p = uid \<and> parent_id p = par
     \<and> references tid (map t_id (topics s))
     \<and> references uid (map u_id (users s))
     \<and> references par (map p_id (posts s))
     \<and> co = Some (p_content p)
     \<and> likes_count p = 0
     \<and> p_created_at p = clock s \<and> p_updated_at p = clock s"
  by (auto simp: posts_insert_def Let_def split: sum.splits option.splits if_splits
        dest!: nextval_Inr)

lemma likes_insert_Inl:
  "likes_insert s uid pid = (Inl err, s1) \<Longrightarrow>
     s1 = s \<or> s1 = s\<lparr>likes_seq := likes_seq s + 1\<rparr> \<and> likes_seq s \<le> 2147483647"
  by (auto simp: likes_insert_def Let_def split: sum.splits option.splits if_splits
        dest!: nextval_Inr)

lemma likes_insert_Inr:
  "likes_insert s uid pid = (Inr l, s1) \<Longrightarrow>
     s1 = s\<lparr>likes_seq := likes_seq s + 1, likes := likes s @ [l]\<rparr>
     \<and> l_id l = likes_seq s
     \<and> likes_seq s \<le> 2147483647
     \<and> l_id l \<notin> set (map l_id (likes s))
     \<and> l_user_id l = uid \<and> l_post_id l = pid
     \<and> (uid \<noteq> None \<and> pid \<noteq> None \<longrightarrow> (uid, pid) \<notin> set (map like_key (likes s)))
     \<and> references uid (map u_id (users s))
     \<and> references pid (map p_id (posts s))
     \<and> l_created_at l = clock s"
  by (auto simp: likes_insert_def like_key_def Let_def split: sum.splits option.splits if_splits
        dest!: nextval_Inr)

text \<open>An \<^verbatim>\<open>UPDATE\<close> moves rows and changes them; it keeps what it does not assign.\<close>

lemma set_update_rows:
  "set (update_rows P f xs) = {x \<in> set xs. \<not> P x} \<union> f ` {x \<in> set xs. P x}"
  by (auto simp: update_rows_def)

lemma mset_update_rows:
  "mset (update_rows P f xs) = mset (map (\<lambda>x. if P x then f x else x) xs)"
  by (induction xs) (simp_all add: update_rows_def)

lemma mset_map_update_rows:
  "(\<And>x. g (f x) = g x) \<Longrightarrow> mset (map g (update_rows P f xs)) = mset (map g xs)"
  by (induction xs) (simp_all add: update_rows_def)

lemma set_map_update_rows:
  "(\<And>x. g (f x) = g x) \<Longrightarrow> set (map g (update_rows P f xs)) = set (map g xs)"
  by (auto simp: update_rows_def image_iff)

lemma distinct_map_update_rows:
  "(\<And>x. g (f x) = g x) \<Longrightarrow> distinct (map g (update_rows P f xs)) = distinct (map g xs)"
  using mset_map_update_rows [of g f P xs]
  by (metis mset_eq_imp_distinct_iff)

lemma update_rows_none: "\<forall>x\<in>set xs. \<not> P x \<Longrightarrow> update_rows P f xs = xs"
  by (simp add: update_rows_def filter_id_conv filter_empty_conv)

section \<open>The constraints are kept\<close>

lemmas inv_defs = consistent_def users_ok_def categories_ok_def topics_ok_def likes_ok_def
  counters_ok_def like_rows_def

lemma consistent_tick: "consistent s \<Longrightarrow> consistent (tick dt s)"
  by (auto simp: inv_defs tick_def)

lemma bounded_tick: "bounded s \<Longrightarrow> bounded (tick dt s)"
  by (auto simp: bounded_def tick_def)

lemma consistent_users_seq: "consistent s \<Longrightarrow> consistent (s\<lparr>users_seq := n\<rparr>)"
  by (auto simp: inv_defs)

lemma consistent_categories_seq: "consistent s \<Longrightarrow> consistent (s\<lparr>categories_seq := n\<rparr>)"
  by (auto simp: inv_defs)

lemma consistent_topics_seq: "consistent s \<Longrightarrow> consistent (s\<lparr>topics_seq := n\<rparr>)"
  by (auto simp: inv_defs)

lemma consistent_posts_seq: "consistent s \<Longrightarrow> consistent (s\<lparr>posts_seq := n\<rparr>)"
  by (auto simp: inv_defs)

lemma consistent_likes_seq: "consistent s \<Longrightarrow> consistent (s\<lparr>likes_seq := likes_seq s + 1\<rparr>)"
  by (auto simp: inv_defs)

lemma consistent_users_insert:
  assumes "consistent s"
  shows "consistent (snd (users_insert s un em ph b))"
proof (cases "users_insert s un em ph b")
  case (Pair r s1)
  show ?thesis
  proof (cases r)
    case (Inl err)
    with Pair have "s1 = s \<or> s1 = s\<lparr>users_seq := users_seq s + 1\<rparr>"
      by (auto dest: users_insert_Inl)
    with Pair assms show ?thesis
      by (auto simp: consistent_users_seq)
  next
    case (Inr u)
    with Pair have ins: "users_insert s un em ph b = (Inr u, s1)" by simp
    note facts = users_insert_Inr [OF ins]
    from facts have "length (username u) \<le> 50" "length (email u) \<le> 100"
      by (auto dest: varchar_param_length)
    with facts assms have "consistent s1"
      by (auto simp: inv_defs)
    with Pair show ?thesis by simp
  qed
qed

lemma bounded_users_insert:
  assumes "bounded s"
  shows "bounded (snd (users_insert s un em ph b))"
proof (cases "users_insert s un em ph b")
  case (Pair r s1)
  show ?thesis
  proof (cases r)
    case (Inl err)
    with Pair have "s1 = s \<or> s1 = s\<lparr>users_seq := users_seq s + 1\<rparr>"
      by (auto dest: users_insert_Inl)
    with Pair assms show ?thesis
      by (auto simp: bounded_def)
  next
    case (Inr u)
    with Pair have ins: "users_insert s un em ph b = (Inr u, s1)" by simp
    from users_insert_Inr [OF ins] assms have "bounded s1"
      by (auto simp: bounded_def)
    with Pair show ?thesis by simp
  qed
qed

lemma consistent_register: "consistent s \<Longrightarrow> consistent (snd (register e s un em pw))"
  by (auto simp: register_def consistent_users_insert split: option.splits sum.splits prod.splits)
     (metis consistent_users_insert snd_conv)+

lemma bounded_register: "bounded s \<Longrightarrow> bounded (snd (register e s un em pw))"
  by (auto simp: register_def split: option.splits sum.splits prod.splits)
     (metis bounded_users_insert snd_conv)+

text \<open>An \<^verbatim>\<open>UPDATE\<close> of users that keeps the id, the name and the email.\<close>

lemma consistent_update_users:
  assumes "consistent s"
    and "\<And>u. u_id (f u) = u_id u \<and> username (f u) = username u \<and> email (f u) = email u
            \<and> last_seen (f u) \<le> clock s"
  shows "consistent (s\<lparr>users := update_rows P f (users s)\<rparr>)"
proof -
  let ?s1 = "s\<lparr>users := update_rows P f (users s)\<rparr>"
  from assms(1) have ok: "users_ok s" "categories_ok s" "topics_ok s" "likes_ok s" "counters_ok s"
    by (simp_all add: consistent_def)
  have ids: "set (map u_id (users ?s1)) = set (map u_id (users s))"
    "distinct (map u_id (users ?s1)) = distinct (map u_id (users s))"
    using set_map_update_rows [of u_id f P "users s"]
      distinct_map_update_rows [of u_id f P "users s"] assms(2)
    by simp_all
  have "users_ok ?s1"
    unfolding users_ok_def ids using ok(1) assms(2)
    by (auto simp: users_ok_def set_update_rows)
  moreover have "categories_ok ?s1"
    using ok(2) by (simp add: categories_ok_def)
  moreover have "topics_ok ?s1"
    unfolding topics_ok_def ids using ok(3) by (simp add: topics_ok_def)
  moreover have "likes_ok ?s1"
    unfolding likes_ok_def ids using ok(4) by (simp add: likes_ok_def)
  moreover have "counters_ok ?s1"
    using ok(5) by (simp add: counters_ok_def like_rows_def)
  ultimately show ?thesis
    by (simp add: consistent_def)
qed

lemma consistent_touch_last_seen: "consistent s \<Longrightarrow> consistent (touch_last_seen i s)"
  unfolding touch_last_seen_def by (rule consistent_update_users) simp_all

lemma bounded_touch_last_seen: "bounded s \<Longrightarrow> bounded (touch_last_seen i s)"
  by (simp add: bounded_def touch_last_seen_def)

lemma consistent_login: "consistent s \<Longrightarrow> consistent (snd (login e s ident pw))"
  by (auto simp: login_def consistent_touch_last_seen split: list.splits option.splits sum.splits)

lemma bounded_login: "bounded s \<Longrightarrow> bounded (snd (login e s ident pw))"
  by (auto simp: login_def bounded_touch_last_seen split: list.splits option.splits sum.splits)

text \<open>An \<^verbatim>\<open>UPDATE\<close> of topics that keeps the id and the author.\<close>

lemma consistent_update_topics:
  assumes "consistent s"
    and "\<And>t. t_id (f t) = t_id t \<and> t_user_id (f t) = t_user_id t"
  shows "consistent (s\<lparr>topics := update_rows P f (topics s)\<rparr>)"
proof -
  let ?s1 = "s\<lparr>topics := update_rows P f (topics s)\<rparr>"
  from assms(1) have ok: "users_ok s" "categories_ok s" "topics_ok s" "likes_ok s" "counters_ok s"
    by (simp_all add: consistent_def)
  have ids: "distinct (map t_id (topics ?s1)) = distinct (map t_id (topics s))"
    using distinct_map_update_rows [of t_id f P "topics s"] assms(2)
    by simp
  have "users_ok ?s1"
    using ok(1) by (simp add: users_ok_def)
  moreover have "categories_ok ?s1"
    using ok(2) by (simp add: categories_ok_def)
  moreover have "topics_ok ?s1"
    unfolding topics_ok_def ids using ok(3) assms(2)
    by (auto simp: topics_ok_def set_update_rows)
  moreover have "likes_ok ?s1"
    using ok(4) by (simp add: likes_ok_def)
  moreover have "counters_ok ?s1"
    using ok(5) by (simp add: counters_ok_def like_rows_def)
  ultimately show ?thesis
    by (simp add: consistent_def)
qed

lemma bounded_update_topics:
  assumes "bounded s"
    and "\<And>t. t_id (f t) = t_id t" "\<And>t. 0 \<le> views t \<Longrightarrow> 0 \<le> views (f t)"
  shows "bounded (s\<lparr>topics := update_rows P f (topics s)\<rparr>)"
  using assms by (auto simp: bounded_def set_update_rows)

lemma bump_views_Inr:
  "bump_views i s = Inr s1 \<Longrightarrow>
     s1 = s\<lparr>topics := update_rows (\<lambda>t. t_id t = i) (\<lambda>t. t\<lparr>views := views t + 1\<rparr>) (topics s)\<rparr>"
  by (auto simp: bump_views_def split: if_splits)

lemma consistent_bump_views: "consistent s \<Longrightarrow> bump_views i s = Inr s1 \<Longrightarrow> consistent s1"
  by (auto dest!: bump_views_Inr intro!: consistent_update_topics)

lemma bounded_bump_views: "bounded s \<Longrightarrow> bump_views i s = Inr s1 \<Longrightarrow> bounded s1"
  by (auto dest!: bump_views_Inr intro!: bounded_update_topics)

lemma consistent_get_topic: "consistent s \<Longrightarrow> consistent (snd (get_topic e s ident))"
  by (auto simp: get_topic_def consistent_bump_views split: list.splits sum.splits)

lemma bounded_get_topic: "bounded s \<Longrightarrow> bounded (snd (get_topic e s ident))"
  by (auto simp: get_topic_def bounded_bump_views split: list.splits sum.splits)

lemma consistent_touch_topic: "consistent s \<Longrightarrow> consistent (touch_topic tid s)"
  unfolding touch_topic_def by (rule consistent_update_topics) simp_all

lemma bounded_touch_topic: "bounded s \<Longrightarrow> bounded (touch_topic tid s)"
  unfolding touch_topic_def by (rule bounded_update_topics) simp_all

lemma consistent_topics_insert:
  assumes "consistent s" "uid \<noteq> None"
  shows "consistent (snd (topics_insert s ti co cat uid))"
proof (cases "topics_insert s ti co cat uid")
  case (Pair r s1)
  show ?thesis
  proof (cases r)
    case (Inl err)
    with Pair have "s1 = s \<or> s1 = s\<lparr>topics_seq := topics_seq s + 1\<rparr>"
      by (auto dest: topics_insert_Inl)
    with Pair assms show ?thesis
      by (auto simp: consistent_topics_seq)
  next
    case (Inr t)
    with Pair have ins: "topics_insert s ti co cat uid = (Inr t, s1)" by simp
    note facts = topics_insert_Inr [OF ins]
    with assms have "consistent s1"
      by (auto simp: inv_defs references_def)
    with Pair show ?thesis by simp
  qed
qed

lemma bounded_topics_insert:
  assumes "bounded s"
  shows "bounded (snd (topics_insert s ti co cat uid))"
proof (cases "topics_insert s ti co cat uid")
  case (Pair r s1)
  show ?thesis
  proof (cases r)
    case (Inl err)
    with Pair have "s1 = s \<or> s1 = s\<lparr>topics_seq := topics_seq s + 1\<rparr>"
      by (auto dest: topics_insert_Inl)
    with Pair assms show ?thesis
      by (fastforce simp: bounded_def)
  next
    case (Inr t)
    with Pair have ins: "topics_insert s ti co cat uid = (Inr t, s1)" by simp
    from topics_insert_Inr [OF ins] assms have "bounded s1"
      by (fastforce simp: bounded_def)
    with Pair show ?thesis by simp
  qed
qed

lemma pg_int_js_or: "pg_int e (js_or v (JNum 1)) \<noteq> Inr None"
  by (cases v) (auto simp: js_or_def in_int4_def split: sum.splits)

lemma consistent_create_topic:
  assumes "consistent s"
  shows "consistent (snd (create_topic e s ti co category user_id))"
proof -
  have "consistent (snd (topics_insert s ti1 co1 cat uid))"
    if "pg_int e (js_or user_id (JNum 1)) = Inr uid" for ti1 co1 cat uid
  proof -
    from that pg_int_js_or [of e user_id] have "uid \<noteq> None" by auto
    with assms show ?thesis by (rule consistent_topics_insert)
  qed
  with assms show ?thesis
    by (auto simp: create_topic_def split: sum.splits prod.splits) (metis snd_conv)+
qed

lemma bounded_create_topic:
  assumes "bounded s"
  shows "bounded (snd (create_topic e s ti co category user_id))"
  using assms
  by (auto simp: create_topic_def split: sum.splits prod.splits)
     (metis bounded_topics_insert snd_conv)+

lemma consistent_posts_insert:
  assumes "consistent s" "posts_insert s co tid uid par = (r, s1)"
  shows "consistent s1"
proof (cases r)
  case (Inl err)
  with assms(2) have "s1 = s \<or> s1 = s\<lparr>posts_seq := posts_seq s + 1\<rparr>"
    by (auto dest: posts_insert_Inl)
  with assms(1) show ?thesis
    by (auto simp: consistent_posts_seq)
next
  case (Inr p)
  with assms have ins: "posts_insert s co tid uid par = (Inr p, s1)" by simp
  note facts = posts_insert_Inr [OF ins]
  from assms(1) have ok: "users_ok s" "categories_ok s" "topics_ok s" "likes_ok s" "counters_ok s"
    by (simp_all add: consistent_def)
  from facts have s1: "users s1 = users s" "categories s1 = categories s"
     "topics s1 = topics s" "posts s1 = posts s @ [p]" "likes s1 = likes s"
     "clock s1 = clock s" "likes_seq s1 = likes_seq s"
    by simp_all
  from facts have new: "p_id p \<notin> set (map p_id (posts s))" "likes_count p = 0"
    by auto
  from ok(4) have fk: "\<forall>l\<in>set (likes s). l_post_id l \<in> Some ` set (map p_id (posts s))"
    by (simp add: likes_ok_def)
  have "l_post_id l \<noteq> Some (p_id p)" if "l \<in> set (likes s)" for l
    using fk new(1) that by (fastforce simp: image_iff)
  then have none: "filter (\<lambda>l. l_post_id l = Some (p_id p)) (likes s) = []"
    by (simp add: filter_empty_conv)
  have "users_ok s1"
    using ok(1) unfolding users_ok_def s1 .
  moreover have "categories_ok s1"
    using ok(2) unfolding categories_ok_def s1 .
  moreover have "topics_ok s1"
    using ok(3) unfolding topics_ok_def s1 .
  moreover have "likes_ok s1"
    using ok(4) unfolding likes_ok_def s1 by auto
  moreover have "counters_ok s1"
    using ok(5) none new unfolding counters_ok_def like_rows_def s1 by auto
  ultimately show "consistent s1"
    by (simp add: consistent_def)
qed

lemma bounded_posts_insert:
  assumes "bounded s" "posts_insert s co tid uid par = (r, s1)"
  shows "bounded s1"
proof (cases r)
  case (Inl err)
  with assms(2) have "s1 = s \<or> s1 = s\<lparr>posts_seq := posts_seq s + 1\<rparr>"
    by (auto dest: posts_insert_Inl)
  with assms(1) show ?thesis
    by (fastforce simp: bounded_def)
next
  case (Inr p)
  with assms have ins: "posts_insert s co tid uid par = (Inr p, s1)" by simp
  from posts_insert_Inr [OF ins] assms(1) show ?thesis
    by (fastforce simp: bounded_def)
qed

lemma consistent_create_post:
  assumes "consistent s"
  shows "consistent (snd (create_post e s co topic user_id parent))"
  using assms
  by (auto simp: create_post_def split: sum.splits prod.splits
        intro: consistent_posts_insert consistent_touch_topic)

lemma bounded_create_post:
  assumes "bounded s"
  shows "bounded (snd (create_post e s co topic user_id parent))"
  using assms
  by (auto simp: create_post_def split: sum.splits prod.splits
        intro: bounded_posts_insert bounded_touch_topic)

text \<open>The like rows of one post when one user's row goes.\<close>

lemma filter_key_le_1:
  "distinct (map f xs) \<Longrightarrow> length (filter (\<lambda>x. f x = k) xs) \<le> 1"
proof (induction xs)
  case Nil
  then show ?case by simp
next
  case (Cons x xs)
  show ?case
  proof (cases "f x = k")
    case True
    with Cons.prems have "\<forall>y\<in>set xs. f y \<noteq> k" by (auto simp: image_iff)
    then have "filter (\<lambda>x. f x = k) xs = []" by (simp add: filter_empty_conv)
    with True show ?thesis by simp
  next
    case False
    with Cons show ?thesis by simp
  qed
qed

lemma like_matches_key:
  "like_matches (Some u) pid l = (like_key l = (Some u, Some pid))"
  by (auto simp: like_matches_def like_key_def)

lemma like_rows_unlike:
  assumes "distinct (map like_key ls)" "filter (like_matches uid pid) ls \<noteq> []"
  shows "int (length (filter (\<lambda>l. l_post_id l = Some q)
                    (filter (\<lambda>l. \<not> like_matches uid pid l) ls)))
         = int (length (filter (\<lambda>l. l_post_id l = Some q) ls)) - (if q = pid then 1 else 0)"
  using assms
proof (induction ls)
  case Nil
  then show ?case by simp
next
  case (Cons x xs)
  show ?case
  proof (cases "like_matches uid pid x")
    case True
    then obtain u where u: "uid = Some u" "like_key x = (Some u, Some pid)"
      by (cases uid) (auto simp: like_matches_def like_key_def)
    with Cons.prems(1) have "\<forall>y\<in>set xs. like_key y \<noteq> (Some u, Some pid)"
      by (auto simp: image_iff)
    then have "\<forall>y\<in>set xs. \<not> like_matches uid pid y"
      by (simp add: u(1) like_matches_key)
    then have "filter (\<lambda>l. \<not> like_matches uid pid l) xs = xs"
      by (simp add: filter_id_conv)
    moreover from u(2) have "l_post_id x = Some pid"
      by (simp add: like_key_def)
    ultimately show ?thesis using True by simp
  next
    case False
    with Cons.prems have "distinct (map like_key xs)" "filter (like_matches uid pid) xs \<noteq> []"
      by simp_all
    from Cons.IH [OF this] False show ?thesis by (auto split: if_splits)
  qed
qed

text \<open>
  A counter cannot leave the 32 bits: a post has no more like rows than the sequence
  of \<^verbatim>\<open>likes\<close> has handed out ids.
\<close>

lemma likes_length_bound:
  assumes "bounded s" "\<forall>l\<in>set (likes s). l_id l < likes_seq s"
  shows "int (length (likes s)) \<le> likes_seq s - 1"
proof -
  from assms(1) have d: "distinct (map l_id (likes s))"
    and pos: "\<forall>l\<in>set (likes s). 1 \<le> l_id l" and seq: "1 \<le> likes_seq s"
    by (simp_all add: bounded_def)
  have "length (likes s) = card (set (map l_id (likes s)))"
    using distinct_card [OF d] by simp
  also have "\<dots> \<le> card {1..<likes_seq s}"
    using pos assms(2) by (intro card_mono) auto
  also have "\<dots> = nat (likes_seq s - 1)"
    by simp
  finally show ?thesis
    using seq by simp
qed

lemma likes_count_bound:
  assumes "consistent s" "bounded s" "p \<in> set (posts s)"
  shows "0 \<le> likes_count p \<and> likes_count p \<le> likes_seq s - 1"
proof -
  from assms(1) have "counters_ok s" "\<forall>l\<in>set (likes s). l_id l < likes_seq s"
    by (simp_all add: consistent_def likes_ok_def)
  with assms(3) have "likes_count p = int (like_rows s (p_id p))"
    by (simp add: counters_ok_def)
  moreover have "like_rows s (p_id p) \<le> length (likes s)"
    by (simp add: like_rows_def)
  moreover have "int (length (likes s)) \<le> likes_seq s - 1"
    using assms(2) \<open>\<forall>l\<in>set (likes s). l_id l < likes_seq s\<close> by (rule likes_length_bound)
  ultimately show ?thesis by simp
qed

lemma add_likes_Inr:
  "add_likes d pid s = Inr s1 \<Longrightarrow>
     s1 = s\<lparr>posts := update_rows (\<lambda>p. p_id p = pid)
                        (\<lambda>p. p\<lparr>likes_count := likes_count p + d\<rparr>) (posts s)\<rparr>"
  by (auto simp: add_likes_def split: if_splits)

lemma add_likes_in_range:
  assumes "\<forall>p\<in>set (posts s). in_int4 (likes_count p + d)"
  shows "add_likes d pid s
     = Inr (s\<lparr>posts := update_rows (\<lambda>p. p_id p = pid)
                          (\<lambda>p. p\<lparr>likes_count := likes_count p + d\<rparr>) (posts s)\<rparr>)"
  using assms by (auto simp: add_likes_def)

text \<open>
  The counters stay right when the rows of post \<open>pid\<close> change by \<open>d\<close> and its counter
  is moved by \<open>d\<close>.
\<close>

lemma counters_ok_update_posts:
  assumes "counters_ok s"
    and "posts s1 = posts s"
    and "\<And>q. int (like_rows s1 q) = int (like_rows s q) + (if q = pid then d else 0)"
  shows "counters_ok (s1\<lparr>posts := update_rows (\<lambda>p. p_id p = pid)
                          (\<lambda>p. p\<lparr>likes_count := likes_count p + d\<rparr>) (posts s1)\<rparr>)"
  using assms
  by (auto simp: counters_ok_def like_rows_def set_update_rows)

lemma others_ok_update_posts:
  assumes "users_ok s" "categories_ok s" "topics_ok s" "likes_ok s"
    and "\<And>p. p_id (f p) = p_id p"
  shows "users_ok (s\<lparr>posts := update_rows P f (posts s)\<rparr>)"
    "categories_ok (s\<lparr>posts := update_rows P f (posts s)\<rparr>)"
    "topics_ok (s\<lparr>posts := update_rows P f (posts s)\<rparr>)"
    "likes_ok (s\<lparr>posts := update_rows P f (posts s)\<rparr>)"
proof -
  let ?s1 = "s\<lparr>posts := update_rows P f (posts s)\<rparr>"
  have ids: "set (map p_id (posts ?s1)) = set (map p_id (posts s))"
    using set_map_update_rows [of p_id f P "posts s"] assms(5) by simp
  show "users_ok ?s1" using assms(1) by (simp add: users_ok_def)
  show "categories_ok ?s1" using assms(2) by (simp add: categories_ok_def)
  show "topics_ok ?s1" using assms(3) by (simp add: topics_ok_def)
  show "likes_ok ?s1" unfolding likes_ok_def ids using assms(4) by (simp add: likes_ok_def)
qed

lemma bounded_update_posts:
  assumes "bounded s" and "\<And>p. p_id (f p) = p_id p"
  shows "bounded (s\<lparr>posts := update_rows P f (posts s)\<rparr>)"
  using assms by (auto simp: bounded_def set_update_rows)

lemma consistent_unlike:
  assumes "consistent s" "filter (like_matches uid pid) (likes s) \<noteq> []"
  shows "consistent
     (s\<lparr>likes := filter (\<lambda>l. \<not> like_matches uid pid l) (likes s),
        posts := update_rows (\<lambda>p. p_id p = pid)
                   (\<lambda>p. p\<lparr>likes_count := likes_count p + (- 1)\<rparr>) (posts s)\<rparr>)"
proof -
  let ?s1 = "s\<lparr>likes := filter (\<lambda>l. \<not> like_matches uid pid l) (likes s)\<rparr>"
  let ?s2 = "?s1\<lparr>posts := update_rows (\<lambda>p. p_id p = pid)
                   (\<lambda>p. p\<lparr>likes_count := likes_count p + (- 1)\<rparr>) (posts ?s1)\<rparr>"
  from assms(1) have ok: "users_ok s" "categories_ok s" "topics_ok s" "likes_ok s" "counters_ok s"
    by (simp_all add: consistent_def)
  from ok(4) have d: "distinct (map like_key (likes s))"
    by (simp add: likes_ok_def)
  have "users_ok ?s1" "categories_ok ?s1" "topics_ok ?s1"
    using ok(1-3) by (simp_all add: users_ok_def categories_ok_def topics_ok_def)
  moreover have "likes_ok ?s1"
    using ok(4) by (auto simp: likes_ok_def distinct_map_filter)
  ultimately have "users_ok ?s2" "categories_ok ?s2" "topics_ok ?s2" "likes_ok ?s2"
    by (rule others_ok_update_posts; simp)+
  moreover have "counters_ok ?s2"
  proof (rule counters_ok_update_posts [OF ok(5)])
    show "posts ?s1 = posts s" by simp
    show "int (like_rows ?s1 q) = int (like_rows s q) + (if q = pid then - 1 else 0)" for q
      using like_rows_unlike [OF d assms(2), of q] by (simp add: like_rows_def)
  qed
  ultimately have "consistent ?s2"
    by (simp add: consistent_def)
  then show ?thesis by simp
qed

lemma consistent_like:
  assumes "consistent s" "likes_insert s uid (Some pid) = (Inr l, s1)" "uid \<noteq> None"
  shows "consistent (s1\<lparr>posts := update_rows (\<lambda>p. p_id p = pid)
                          (\<lambda>p. p\<lparr>likes_count := likes_count p + 1\<rparr>) (posts s1)\<rparr>)"
proof -
  let ?s2 = "s1\<lparr>posts := update_rows (\<lambda>p. p_id p = pid)
                          (\<lambda>p. p\<lparr>likes_count := likes_count p + 1\<rparr>) (posts s1)\<rparr>"
  note facts = likes_insert_Inr [OF assms(2)]
  from assms(1) have ok: "users_ok s" "categories_ok s" "topics_ok s" "likes_ok s" "counters_ok s"
    by (simp_all add: consistent_def)
  from facts have s1: "users s1 = users s" "categories s1 = categories s"
     "topics s1 = topics s" "posts s1 = posts s" "likes s1 = likes s @ [l]"
     "clock s1 = clock s" "likes_seq s1 = likes_seq s + 1"
    by simp_all
  from facts assms(3) have new: "like_key l \<notin> set (map like_key (likes s))"
     "l_id l = likes_seq s" "l_post_id l = Some pid"
     "l_user_id l \<in> Some ` set (map u_id (users s))"
     "l_post_id l \<in> Some ` set (map p_id (posts s))"
    by (auto simp: like_key_def references_def)
  have "users_ok s1"
    using ok(1) unfolding users_ok_def s1 .
  moreover have "categories_ok s1"
    using ok(2) unfolding categories_ok_def s1 .
  moreover have "topics_ok s1"
    using ok(3) unfolding topics_ok_def s1 .
  moreover have "likes_ok s1"
    using ok(4) new unfolding likes_ok_def s1 by auto
  ultimately have "users_ok ?s2" "categories_ok ?s2" "topics_ok ?s2" "likes_ok ?s2"
    by (rule others_ok_update_posts; simp)+
  moreover have "counters_ok ?s2"
  proof (rule counters_ok_update_posts [OF ok(5)])
    show "posts s1 = posts s" by (rule s1)
    show "int (like_rows s1 q) = int (like_rows s q) + (if q = pid then 1 else 0)" for q
      using new(3) by (simp add: like_rows_def s1)
  qed
  ultimately show ?thesis
    by (simp add: consistent_def)
qed

lemma likes_count_in_range:
  assumes "consistent s" "bounded s" "p \<in> set (posts s)"
  shows "in_int4 (likes_count p + (- 1))"
    and "likes_seq s \<le> 2147483647 \<Longrightarrow> in_int4 (likes_count p + 1)"
proof -
  from assms(2) have "likes_seq s \<le> 2147483648"
    by (simp add: bounded_def)
  with likes_count_bound [OF assms] show "in_int4 (likes_count p + (- 1))"
    by (simp add: in_int4_def)
  from likes_count_bound [OF assms]
  show "in_int4 (likes_count p + 1)" if "likes_seq s \<le> 2147483647"
    using that by (simp add: in_int4_def)
qed

lemma unlike_result:
  assumes "consistent s" "bounded s"
  shows "add_likes (- 1) pid (s\<lparr>likes := filter (\<lambda>l. \<not> like_matches uid pid l) (likes s)\<rparr>)
     = Inr (s\<lparr>likes := filter (\<lambda>l. \<not> like_matches uid pid l) (likes s),
              posts := update_rows (\<lambda>p. p_id p = pid)
                         (\<lambda>p. p\<lparr>likes_count := likes_count p + (- 1)\<rparr>) (posts s)\<rparr>)"
proof -
  let ?s1 = "s\<lparr>likes := filter (\<lambda>l. \<not> like_matches uid pid l) (likes s)\<rparr>"
  have "\<forall>p\<in>set (posts ?s1). in_int4 (likes_count p + (- 1))"
    using likes_count_in_range(1) [OF assms] by simp
  from add_likes_in_range [OF this, of pid] show ?thesis by simp
qed

lemma like_result:
  assumes "consistent s" "bounded s" "likes_insert s uid (Some pid) = (Inr l, s1)"
  shows "add_likes 1 pid s1
     = Inr (s1\<lparr>posts := update_rows (\<lambda>p. p_id p = pid)
                           (\<lambda>p. p\<lparr>likes_count := likes_count p + 1\<rparr>) (posts s1)\<rparr>)"
proof -
  from likes_insert_Inr [OF assms(3)] have "likes_seq s \<le> 2147483647" "posts s1 = posts s"
    by simp_all
  with likes_count_in_range(2) [OF assms(1,2)]
  have "\<forall>p\<in>set (posts s1). in_int4 (likes_count p + 1)"
    by simp
  then show ?thesis by (rule add_likes_in_range)
qed

lemma bounded_unlike:
  assumes "bounded s"
  shows "bounded
     (s\<lparr>likes := filter (\<lambda>l. \<not> like_matches uid pid l) (likes s),
        posts := update_rows (\<lambda>p. p_id p = pid)
                   (\<lambda>p. p\<lparr>likes_count := likes_count p + (- 1)\<rparr>) (posts s)\<rparr>)"
  using assms by (auto simp: bounded_def set_update_rows distinct_map_filter)

lemma bounded_like:
  assumes "bounded s" "likes_insert s uid (Some pid) = (Inr l, s1)"
  shows "bounded (s1\<lparr>posts := update_rows (\<lambda>p. p_id p = pid)
                          (\<lambda>p. p\<lparr>likes_count := likes_count p + 1\<rparr>) (posts s1)\<rparr>)"
  using assms(1) likes_insert_Inr [OF assms(2)]
  by (auto simp: bounded_def set_update_rows)

lemma kept_toggle_like:
  assumes "consistent s" "bounded s"
  shows "consistent (snd (toggle_like e s user_id post_id))
         \<and> bounded (snd (toggle_like e s user_id post_id))"
proof (cases "pg_int e (js_or user_id (JNum 1))")
  case (Inl err)
  with assms show ?thesis by (simp add: toggle_like_def)
next
  case uid: (Inr uid)
  with pg_int_js_or [of e user_id] have some: "uid \<noteq> None" by auto
  show ?thesis
  proof (cases "int4_in e post_id")
    case (Inl err)
    with uid assms show ?thesis by (simp add: toggle_like_def)
  next
    case pid: (Inr pid)
    show ?thesis
    proof (cases "filter (like_matches uid pid) (likes s) = []")
      case False
      from assms(1) False have "consistent
         (s\<lparr>likes := filter (\<lambda>l. \<not> like_matches uid pid l) (likes s),
            posts := update_rows (\<lambda>p. p_id p = pid)
                       (\<lambda>p. p\<lparr>likes_count := likes_count p + (- 1)\<rparr>) (posts s)\<rparr>)"
        by (rule consistent_unlike)
      with uid pid False unlike_result [OF assms, where pid = pid and uid = uid]
        bounded_unlike [OF assms(2), where pid = pid and uid = uid]
      show ?thesis by (simp add: toggle_like_def)
    next
      case True
      obtain r s1 where ins: "likes_insert s uid (Some pid) = (r, s1)"
        by (cases "likes_insert s uid (Some pid)")
      show ?thesis
      proof (cases r)
        case (Inl err)
        with ins have "s1 = s \<or> s1 = s\<lparr>likes_seq := likes_seq s + 1\<rparr> \<and> likes_seq s \<le> 2147483647"
          by (auto dest: likes_insert_Inl)
        with assms have "consistent s1 \<and> bounded s1"
          by (auto simp: consistent_likes_seq bounded_def)
        with uid pid True ins Inl show ?thesis by (simp add: toggle_like_def)
      next
        case (Inr l)
        with ins have ins': "likes_insert s uid (Some pid) = (Inr l, s1)" by simp
        from consistent_like [OF assms(1) ins' some] bounded_like [OF assms(2) ins']
          like_result [OF assms ins'] uid pid True ins'
        show ?thesis by (simp add: toggle_like_def)
      qed
    qed
  qed
qed

lemma kept_handle:
  assumes "consistent s" "bounded s"
  shows "consistent (snd (handle e s r)) \<and> bounded (snd (handle e s r))"
  using assms
  by (cases r)
     (simp_all add: consistent_register consistent_login consistent_get_topic
        consistent_create_topic consistent_create_post kept_toggle_like
        bounded_register bounded_login bounded_get_topic
        bounded_create_topic bounded_create_post)

lemma snd_serve_Cons:
  "snd (serve e s ((dt, r) # rs)) = snd (serve e (snd (handle e (tick dt s) r)) rs)"
  by (simp split: prod.splits)

lemma fst_serve_Cons:
  "fst (serve e s ((dt, r) # rs))
     = fst (handle e (tick dt s) r) # fst (serve e (snd (handle e (tick dt s) r)) rs)"
  by (simp split: prod.splits)

lemma kept_serve:
  "consistent s \<Longrightarrow> bounded s \<Longrightarrow>
     consistent (snd (serve e s rs)) \<and> bounded (snd (serve e s rs))"
proof (induction rs arbitrary: s)
  case Nil
  then show ?case by simp
next
  case (Cons a rs)
  obtain dt r where a: "a = (dt, r)" by (cases a)
  from Cons.prems have "consistent (tick dt s)" "bounded (tick dt s)"
    by (simp_all add: consistent_tick bounded_tick)
  then have "consistent (snd (handle e (tick dt s) r)) \<and> bounded (snd (handle e (tick dt s) r))"
    by (rule kept_handle)
  then have "consistent (snd (serve e (snd (handle e (tick dt s) r)) rs))
      \<and> bounded (snd (serve e (snd (handle e (tick dt s) r)) rs))"
    using Cons.IH by blast
  then show ?case
    by (simp only: a snd_serve_Cons)
qed

text \<open>\<^verbatim>\<open>initDB\<close> keeps the constraints, on any database.\<close>

lemma kept_categories_insert_or_nothing:
  "consistent s \<Longrightarrow> bounded s \<Longrightarrow>
     consistent (snd (categories_insert_or_nothing rows s))
     \<and> bounded (snd (categories_insert_or_nothing rows s))"
proof (induction rows s rule: categories_insert_or_nothing.induct)
  case (1 s)
  then show ?case by simp
next
  case (2 n d c i rows s)
  show ?case
  proof (cases "nextval (categories_seq s)")
    case (Inl err)
    with 2 show ?thesis by simp
  next
    case (Inr k)
    let ?s1 = "if k \<in> set (map c_id (categories s)) then s\<lparr>categories_seq := k + 1\<rparr>
             else s\<lparr>categories_seq := k + 1,
                    categories := categories s @
                      [\<lparr>c_id = k, c_name = n, description = Some d,
                        color = Some c, icon = Some i, c_created_at = clock s\<rparr>]\<rparr>"
    from "2.prems" have "consistent ?s1" "bounded ?s1"
      by (auto simp: inv_defs bounded_def)
    from "2.IH" [OF Inr this] Inr show ?thesis by simp
  qed
qed

lemma kept_categories_insert_default:
  assumes "consistent s" "bounded s"
  shows "consistent (snd (categories_insert_default s))
     \<and> bounded (snd (categories_insert_default s))"
proof (cases "categories_insert_or_nothing default_categories s")
  case (Pair r s1)
  show ?thesis
  proof (cases r)
    case (Inl err)
    from assms have "consistent (s\<lparr>categories_seq := categories_seq s1\<rparr>)"
      "bounded (s\<lparr>categories_seq := categories_seq s1\<rparr>)"
      by (simp_all add: consistent_categories_seq bounded_def)
    with Pair Inl show ?thesis by (simp add: categories_insert_default_def)
  next
    case (Inr u)
    from kept_categories_insert_or_nothing [OF assms, of default_categories] Pair Inr
    show ?thesis by (simp add: categories_insert_default_def)
  qed
qed

lemma kept_users_insert_admin:
  assumes "consistent s" "bounded s"
  shows "consistent (snd (users_insert_admin s h)) \<and> bounded (snd (users_insert_admin s h))"
proof -
  have "consistent (snd (users_insert s (Some ''admin'') (Some ''admin@nexus.com'') (Some h)
                   (Some ''Forum Administrator'')))"
    "bounded (snd (users_insert s (Some ''admin'') (Some ''admin@nexus.com'') (Some h)
                   (Some ''Forum Administrator'')))"
    using assms by (simp_all add: consistent_users_insert bounded_users_insert)
  moreover from assms have "consistent (s\<lparr>users_seq := n\<rparr>)" "bounded (s\<lparr>users_seq := n\<rparr>)" for n
    by (simp_all add: consistent_users_seq bounded_def)
  ultimately show ?thesis
    using assms
    by (auto simp: users_insert_admin_def split: prod.splits sum.splits)
qed

lemma kept_initDB:
  assumes "consistent s" "bounded s"
  shows "consistent (initDB e s) \<and> bounded (initDB e s)"
proof (cases "categories_insert_default s")
  case (Pair r s1)
  with kept_categories_insert_default [OF assms] have s1: "consistent s1" "bounded s1"
    by simp_all
  show ?thesis
  proof (cases r)
    case (Inl err)
    with Pair s1 show ?thesis by (simp add: initDB_def)
  next
    case (Inr u)
    with Pair kept_users_insert_admin [OF s1] show ?thesis by (simp add: initDB_def)
  qed
qed

lemma consistent_fresh: "consistent (fresh now)"
  by (simp add: inv_defs fresh_def)

lemma bounded_fresh: "bounded (fresh now)"
  by (simp add: bounded_def fresh_def)

text \<open>
  So the constraints hold in every database that requests, served one after the other,
  reach from an empty database on which \<^verbatim>\<open>initDB\<close> has run.
\<close>

lemma kept_reachable:
  "consistent (snd (serve e (initDB e (fresh now)) rs))
   \<and> bounded (snd (serve e (initDB e (fresh now)) rs))"
proof -
  have "consistent (initDB e (fresh now)) \<and> bounded (initDB e (fresh now))"
    by (intro kept_initDB consistent_fresh bounded_fresh)
  then show ?thesis
    by (intro kept_serve) simp_all
qed

section \<open>The example database\<close>

lemmas example_defs = example_env_def example_hash_def decimal_def digit_def

lemma example_initDB:
  "initDB example_env (fresh 0)
     = \<lparr>users =
          [\<lparr>u_id = 1, username = ''admin'', email = ''admin@nexus.com'',
            password_hash = ''$2a$10$admin123'', avatar_url = None,
            bio = Some ''Forum Administrator'', u_created_at = 0, last_seen = 0\<rparr>],
        categories = categories example_store,
        topics = [], posts = [], likes = [],
        users_seq = 2, categories_seq = 5, topics_seq = 1, posts_seq = 1, likes_seq = 1,
        clock = 0\<rparr>"
  by (simp add: initDB_def categories_insert_default_def default_categories_def fresh_def
        users_insert_admin_def users_insert_def varchar_param_def varchar_def pg_text_def
        nextval_def example_defs Let_def example_store_def)

lemma example_reached:
  "snd (serve example_env (initDB example_env (fresh 0)) example_requests) = example_store"
  unfolding example_initDB
  by (simp add: users_insert_def varchar_param_def varchar_def pg_text_def nextval_def
        example_defs Let_def in_int4_def int4_in_def update_rows_def
        example_requests_def example_store_def tick_def create_topic_def create_post_def
        register_def toggle_like_def js_or_def topics_insert_def posts_insert_def
        likes_insert_def references_def touch_topic_def add_likes_def like_matches_def
        res_json_def res_status_json_def secret_def)

lemma example_consistent: "consistent example_store"
  by (simp add: inv_defs like_key_def example_store_def)

lemma example_bounded: "bounded example_store"
  by (simp add: bounded_def example_store_def)

section \<open>Likes and their counters\<close>

text \<open>
  C1.  Start from an empty database, let \<^verbatim>\<open>initDB\<close> run, and serve any requests one
  after the other.  Then no two like rows have the same user and post (so each pair of
  a user and a post has at most one row), and the \<^verbatim>\<open>likes\<close> column of every post is
  the number of like rows that reference the post.  The list of requests is arbitrary,
  so this holds after each request of a sequence.
\<close>

theorem likes_unique_and_counted:
  assumes "s = snd (serve e (initDB e (fresh now)) rs)"
  shows "distinct (map like_key (likes s))
         \<and> (\<forall>u p. length (filter (\<lambda>l. l_user_id l = Some u \<and> l_post_id l = Some p)
                              (likes s)) \<le> 1)
         \<and> (\<forall>p\<in>set (posts s). likes_count p = int (like_rows s (p_id p)))"
proof -
  have "consistent s"
    unfolding assms using kept_reachable [of e now rs] by simp
  then have unique: "distinct (map like_key (likes s))" and counted: "counters_ok s"
    by (simp_all add: consistent_def likes_ok_def)
  have "length (filter (\<lambda>l. l_user_id l = Some u \<and> l_post_id l = Some p) (likes s)) \<le> 1"
    for u p
    using filter_key_le_1 [OF unique, of "(Some u, Some p)"]
    by (simp add: like_key_def)
  with unique counted show ?thesis
    by (simp add: counters_ok_def)
qed

theorem likes_unique_and_counted_witness:
  "example_store = snd (serve example_env (initDB example_env (fresh 0)) example_requests)
   \<and> map like_key (likes example_store) = [(Some 2, Some 1)]
   \<and> map likes_count (posts example_store) = [1]
   \<and> map (\<lambda>p. like_rows example_store (p_id p)) (posts example_store) = [1]"
  using likes_unique_and_counted [of example_store example_env 0 example_requests]
  by (simp add: example_reached) (simp add: example_store_def like_key_def like_rows_def)

section \<open>The health check\<close>

text \<open>
  C9.  \<^verbatim>\<open>GET /api/health\<close> answers with status 200 whether the query on the pool
  returns or throws; when it throws, the failure is in the body only: the error's
  message, and its stack unless \<^verbatim>\<open>NODE_ENV\<close> is \<^verbatim>\<open>production\<close>.
\<close>

theorem health_always_200:
  "status (health e pool) = 200
   \<and> health e (Inl err)
       = \<lparr>status = 200,
          body = Unhealthy (message err)
                   (if NODE_ENV e \<noteq> Some ''production'' then Some (stack err) else None)\<rparr>
   \<and> health e (Inr s) = \<lparr>status = 200, body = Healthy (length (categories s))\<rparr>"
proof -
  have "status (health e pool) = 200"
    by (cases pool) (simp_all add: health_def res_json_def)
  then show ?thesis
    by (simp add: health_def res_json_def)
qed

theorem health_always_200_witness:
  "health example_env (Inl \<lparr>message = ''connect ECONNREFUSED'', stack = ''Error: connect''\<rparr>)
     = \<lparr>status = 200, body = Unhealthy ''connect ECONNREFUSED'' (Some ''Error: connect'')\<rparr>
   \<and> health example_env (Inr example_store) = \<lparr>status = 200, body = Healthy 4\<rparr>"
  using health_always_200 [of example_env "Inr example_store"
      "\<lparr>message = ''connect ECONNREFUSED'', stack = ''Error: connect''\<rparr>" example_store]
  by (simp add: example_env_def example_store_def)

section \<open>Running initDB again\<close>

lemma categories_insert_or_nothing_users:
  "users (snd (categories_insert_or_nothing rows s)) = users s"
  "users_seq (snd (categories_insert_or_nothing rows s)) = users_seq s"
  "clock (snd (categories_insert_or_nothing rows s)) = clock s"
  by (induction rows s rule: categories_insert_or_nothing.induct)
     (auto split: sum.splits)

lemma categories_insert_default_users:
  "users (snd (categories_insert_default s)) = users s"
  "users_seq (snd (categories_insert_default s)) = users_seq s"
  "clock (snd (categories_insert_default s)) = clock s"
  using categories_insert_or_nothing_users [of default_categories s]
  by (auto simp: categories_insert_default_def split: prod.splits sum.splits)

lemma users_insert_admin_categories:
  "categories (snd (users_insert_admin s h)) = categories s"
  "categories_seq (snd (users_insert_admin s h)) = categories_seq s"
  by (auto simp: users_insert_admin_def split: prod.splits sum.splits
        dest!: users_insert_Inl users_insert_Inr)

text \<open>The first statement, on a database whose category ids are \<open>1\<close> to \<open>k - 1\<close>.\<close>

lemma categories_insert_default_next:
  assumes "categories_seq s = k" "k \<le> 2147483644" "\<forall>c\<in>set (categories s). c_id c < k"
  shows "\<exists>s1. categories_insert_default s = (Inr (), s1)
     \<and> map (\<lambda>c. (c_id c, c_name c)) (categories s1)
         = map (\<lambda>c. (c_id c, c_name c)) (categories s)
           @ [(k, ''General Discussion''), (k + 1, ''Announcements''),
              (k + 2, ''Help & Support''), (k + 3, ''Feature Requests'')]
     \<and> categories_seq s1 = k + 4"
proof -
  from assms(3) have "j \<notin> c_id ` set (categories s)" if "k \<le> j" for j
    using that by auto
  with assms(1,2) show ?thesis
    by (simp add: categories_insert_default_def default_categories_def nextval_def)
qed

lemma initDB_categories:
  assumes "categories_insert_default s = (Inr (), s1)"
  shows "categories (initDB e s) = categories s1"
    "categories_seq (initDB e s) = categories_seq s1"
  using assms by (simp_all add: initDB_def users_insert_admin_categories)

lemma initDB_fresh_categories:
  "map (\<lambda>c. (c_id c, c_name c)) (categories (initDB e (fresh now)))
     = [(1, ''General Discussion''), (2, ''Announcements''), (3, ''Help & Support''),
        (4, ''Feature Requests'')]"
  "categories_seq (initDB e (fresh now)) = 5"
proof -
  have "categories_seq (fresh now) = 1" "\<forall>c\<in>set (categories (fresh now)). c_id c < 1"
    by (simp_all add: fresh_def)
  from categories_insert_default_next [OF this(1) _ this(2)]
  obtain s1 where s1: "categories_insert_default (fresh now) = (Inr (), s1)"
    "map (\<lambda>c. (c_id c, c_name c)) (categories s1)
       = map (\<lambda>c. (c_id c, c_name c)) (categories (fresh now))
         @ [(1, ''General Discussion''), (1 + 1, ''Announcements''),
            (1 + 2, ''Help & Support''), (1 + 3, ''Feature Requests'')]"
    "categories_seq s1 = 1 + 4"
    by auto
  from s1(2,3) have "map (\<lambda>c. (c_id c, c_name c)) (categories s1)
     = [(1, ''General Discussion''), (2, ''Announcements''), (3, ''Help & Support''),
        (4, ''Feature Requests'')]"
    "categories_seq s1 = 5"
    by (simp_all add: fresh_def)
  then show "map (\<lambda>c. (c_id c, c_name c)) (categories (initDB e (fresh now)))
     = [(1, ''General Discussion''), (2, ''Announcements''), (3, ''Help & Support''),
        (4, ''Feature Requests'')]"
    "categories_seq (initDB e (fresh now)) = 5"
    by (simp_all only: initDB_categories [OF s1(1)])
qed

lemma initDB_again_categories:
  assumes "map c_id (categories s) = [1, 2, 3, 4]" "categories_seq s = 5"
  shows "map (\<lambda>c. (c_id c, c_name c)) (categories (initDB e s))
     = map (\<lambda>c. (c_id c, c_name c)) (categories s)
       @ [(5, ''General Discussion''), (6, ''Announcements''), (7, ''Help & Support''),
          (8, ''Feature Requests'')]"
proof -
  from assms(1) have "\<forall>i\<in>set (map c_id (categories s)). i < 5"
    by simp
  then have "\<forall>c\<in>set (categories s). c_id c < 5"
    by simp
  from categories_insert_default_next [OF assms(2) _ this]
  obtain s1 where s1: "categories_insert_default s = (Inr (), s1)"
    "map (\<lambda>c. (c_id c, c_name c)) (categories s1)
       = map (\<lambda>c. (c_id c, c_name c)) (categories s)
         @ [(5, ''General Discussion''), (5 + 1, ''Announcements''),
            (5 + 2, ''Help & Support''), (5 + 3, ''Feature Requests'')]"
    by auto
  from s1(2) show ?thesis
    by (simp add: initDB_categories [OF s1(1)])
qed

lemma users_insert_admin_same:
  assumes "''admin'' \<in> set (map username (users s))
           \<or> pg_text (Some h) = Inl err \<or> varchar 255 h = Inl err"
  shows "users (snd (users_insert_admin s h)) = users s"
  using assms
  by (auto simp: users_insert_admin_def split: prod.splits sum.splits)

lemma users_insert_admin_first:
  assumes "pg_text (Some h) = Inr x" "varchar 255 h = Inr h'"
    and "users s = []" "users_seq s = 1"
  shows "users (snd (users_insert_admin s h))
     = [\<lparr>u_id = 1, username = ''admin'', email = ''admin@nexus.com'',
         password_hash = h', avatar_url = None, bio = Some ''Forum Administrator'',
         u_created_at = clock s, last_seen = clock s\<rparr>]"
  using assms
  by (simp add: users_insert_admin_def users_insert_def varchar_param_def varchar_def
        nextval_def Let_def)

lemma initDB_users:
  "users (initDB e s) = users s
   \<or> users (initDB e s)
       = users (snd (users_insert_admin (snd (categories_insert_default s))
                       (bcrypt_hash e ''admin123'')))"
  by (auto simp: initDB_def categories_insert_default_users(1) [of s, symmetric]
        split: prod.splits sum.splits)

text \<open>The second run of \<^verbatim>\<open>initDB\<close> leaves the users as the first run left them.\<close>

lemma initDB_twice_users:
  "users (initDB e (initDB e (fresh now))) = users (initDB e (fresh now))"
proof -
  let ?h = "bcrypt_hash e ''admin123''"
  let ?s = "initDB e (fresh now)"
  let ?c = "snd (categories_insert_default ?s)"
  have same: "users (initDB e ?s) = users ?s" if "users (snd (users_insert_admin ?c ?h)) = users ?c"
    using initDB_users [of e ?s] that by (auto simp: categories_insert_default_users)
  show ?thesis
  proof (cases "pg_text (Some ?h)")
    case (Inl err)
    then show ?thesis by (intro same users_insert_admin_same [where err = err]) simp
  next
    case clean: (Inr x)
    show ?thesis
    proof (cases "varchar 255 ?h")
      case (Inl err)
      then show ?thesis by (intro same users_insert_admin_same [where err = err]) simp
    next
      case (Inr h')
      obtain s1 where s1: "categories_insert_default (fresh now) = (Inr (), s1)"
        using categories_insert_default_next [of "fresh now" 1] by (auto simp: fresh_def)
      have "users s1 = []" "users_seq s1 = 1"
        using categories_insert_default_users(1,2) [of "fresh now"] s1
        by (simp_all add: fresh_def)
      from users_insert_admin_first [OF clean Inr this] s1
      have "''admin'' \<in> set (map username (users ?s))"
        by (simp add: initDB_def)
      then have "''admin'' \<in> set (map username (users ?c))"
        by (simp add: categories_insert_default_users)
      then show ?thesis by (intro same users_insert_admin_same [where err = undefined]) simp
    qed
  qed
qed

text \<open>
  C3.  On an empty database \<^verbatim>\<open>initDB\<close> stores the four default categories.  Run a
  second time it stores them again under the ids 5 to 8: \<^verbatim>\<open>categories.name\<close> has no
  unique constraint, so \<^verbatim>\<open>ON CONFLICT DO NOTHING\<close> finds no conflict.  The users are
  not stored again: \<^verbatim>\<open>username\<close> is unique and named in \<^verbatim>\<open>ON CONFLICT (username)\<close>.
\<close>

theorem initDB_twice_duplicates_categories:
  "map (\<lambda>c. (c_id c, c_name c)) (categories (initDB e (initDB e (fresh now))))
     = [(1, ''General Discussion''), (2, ''Announcements''), (3, ''Help & Support''),
        (4, ''Feature Requests''), (5, ''General Discussion''), (6, ''Announcements''),
        (7, ''Help & Support''), (8, ''Feature Requests'')]
   \<and> map (\<lambda>c. (c_id c, c_name c)) (categories (initDB e (fresh now)))
     = [(1, ''General Discussion''), (2, ''Announcements''), (3, ''Help & Support''),
        (4, ''Feature Requests'')]
   \<and> users (initDB e (initDB e (fresh now))) = users (initDB e (fresh now))"
proof -
  have ids: "map c_id (categories (initDB e (fresh now))) = [1, 2, 3, 4]"
    using initDB_fresh_categories(1) [of e now, THEN arg_cong, of "map fst"]
    by (simp add: comp_def)
  have "map (\<lambda>c. (c_id c, c_name c)) (categories (initDB e (initDB e (fresh now))))
     = [(1, ''General Discussion''), (2, ''Announcements''), (3, ''Help & Support''),
        (4, ''Feature Requests''), (5, ''General Discussion''), (6, ''Announcements''),
        (7, ''Help & Support''), (8, ''Feature Requests'')]"
    using initDB_again_categories [OF ids initDB_fresh_categories(2), of e]
    by (simp add: initDB_fresh_categories(1))
  with initDB_fresh_categories(1) [of e now] initDB_twice_users [of e now] show ?thesis
    by simp
qed

section \<open>Registration\<close>

lemma users_insert_taken:
  assumes "u \<in> set (users s)"
    and "(un = Some (username u) \<and> length (username u) \<le> 50)
         \<or> (em = Some (email u) \<and> length (email u) \<le> 100)"
  shows "\<exists>err s1. users_insert s un em ph b = (Inl err, s1) \<and> tables s1 = tables s"
proof (cases "users_insert s un em ph b")
  case (Pair r s1)
  show ?thesis
  proof (cases r)
    case (Inl err)
    with Pair users_insert_Inl [of s un em ph b err s1] show ?thesis
      by (auto simp: tables_def)
  next
    case (Inr v)
    with Pair have ins: "users_insert s un em ph b = (Inr v, s1)" by simp
    note facts = users_insert_Inr [OF ins]
    from facts have free: "username v \<notin> set (map username (users s))"
      "email v \<notin> set (map email (users s))" by auto
    from assms(2) have "username v = username u \<or> email v = email u"
    proof
      assume "un = Some (username u) \<and> length (username u) \<le> 50"
      with facts varchar_fits [of "username u" 50] show ?thesis by auto
    next
      assume "em = Some (email u) \<and> length (email u) \<le> 100"
      with facts varchar_fits [of "email u" 100] show ?thesis by auto
    qed
    with free assms(1) have False by (auto simp: image_iff)
    then show ?thesis ..
  qed
qed

lemma register_taken:
  assumes "u \<in> set (users s)"
    and "(un = Some (username u) \<and> length (username u) \<le> 50)
         \<or> (em = Some (email u) \<and> length (email u) \<le> 100)"
  shows "status (fst (register e s un em pw)) = 400
         \<and> tables (snd (register e s un em pw)) = tables s"
proof (cases pw)
  case None
  then show ?thesis by (simp add: register_def res_status_json_def)
next
  case (Some p)
  show ?thesis
  proof (cases "\<exists>err. pg_text un = Inl err \<or> pg_text em = Inl err
                  \<or> pg_text (Some (bcrypt_hash e p)) = Inl err")
    case True
    with Some show ?thesis
      by (auto simp: register_def res_status_json_def split: sum.splits)
  next
    case False
    then obtain hash where bound: "pg_text un = Inr un" "pg_text em = Inr em"
      "pg_text (Some (bcrypt_hash e p)) = Inr hash"
      by (metis pg_text_Inr sum.exhaust)
    from users_insert_taken [OF assms, of hash None]
    obtain err s1 where "users_insert s un em hash None = (Inl err, s1)" "tables s1 = tables s"
      by blast
    with Some bound show ?thesis
      by (simp add: register_def res_status_json_def)
  qed
qed

text \<open>
  C4.  When a user row has the username \<open>U\<close> and the email \<open>E\<close>, a registration with
  the username \<open>U\<close> is answered with status 400 whatever its email and password are,
  and so is a registration with the email \<open>E\<close> whatever its username and password are.
  Neither changes a row of any table.
\<close>

theorem register_rejects_taken_names:
  assumes "consistent s" "u \<in> set (users s)"
  shows "status (fst (register e s (Some (username u)) em pw)) = 400
         \<and> tables (snd (register e s (Some (username u)) em pw)) = tables s
         \<and> status (fst (register e s un (Some (email u)) pw)) = 400
         \<and> tables (snd (register e s un (Some (email u)) pw)) = tables s"
proof -
  from assms have fit: "length (username u) \<le> 50" "length (email u) \<le> 100"
    by (auto simp: consistent_def users_ok_def)
  from fit(1) have "status (fst (register e s (Some (username u)) em pw)) = 400
         \<and> tables (snd (register e s (Some (username u)) em pw)) = tables s"
    by (intro register_taken [OF assms(2)]) simp
  moreover from fit(2) have "status (fst (register e s un (Some (email u)) pw)) = 400
         \<and> tables (snd (register e s un (Some (email u)) pw)) = tables s"
    by (intro register_taken [OF assms(2)]) simp
  ultimately show ?thesis by simp
qed

theorem register_rejects_taken_names_witness:
  "consistent example_store
   \<and> hd (users example_store) \<in> set (users example_store)
   \<and> status (fst (register example_env example_store (Some ''admin'')
                    (Some ''eve@nexus.com'') (Some ''secret''))) = 400
   \<and> tables (snd (register example_env example_store (Some ''admin'')
                    (Some ''eve@nexus.com'') (Some ''secret''))) = tables example_store
   \<and> status (fst (register example_env example_store (Some ''eve'')
                    (Some ''admin@nexus.com'') (Some ''secret''))) = 400
   \<and> tables (snd (register example_env example_store (Some ''eve'')
                    (Some ''admin@nexus.com'') (Some ''secret''))) = tables example_store"
proof -
  have u: "hd (users example_store) \<in> set (users example_store)"
    by (simp add: example_store_def)
  have n: "username (hd (users example_store)) = ''admin''"
    "email (hd (users example_store)) = ''admin@nexus.com''"
    by (simp_all add: example_store_def)
  from register_rejects_taken_names [OF example_consistent u, of example_env
      "Some ''eve@nexus.com''" "Some ''secret''" "Some ''eve''"]
  show ?thesis
    unfolding n using example_consistent u by simp
qed

section \<open>Login\<close>

lemma distinct_map_same:
  "distinct (map f xs) \<Longrightarrow> x \<in> set xs \<Longrightarrow> y \<in> set xs \<Longrightarrow> f x = f y \<Longrightarrow> x = y"
  by (meson distinct_map inj_onD)

lemma filter_distinct_single:
  "distinct (map f xs) \<Longrightarrow> x \<in> set xs \<Longrightarrow> filter (\<lambda>y. f y = f x) xs = [x]"
proof (induction xs)
  case Nil
  then show ?case by simp
next
  case (Cons a xs)
  show ?case
  proof (cases "x = a")
    case True
    with Cons.prems have "\<forall>y\<in>set xs. f y \<noteq> f x" by (auto simp: image_iff)
    then have "filter (\<lambda>y. f y = f x) xs = []" by (simp add: filter_empty_conv)
    with True show ?thesis by simp
  next
    case False
    with Cons.prems have "x \<in> set xs" "f a \<noteq> f x" by (auto simp: image_iff)
    with Cons show ?thesis by simp
  qed
qed

text \<open>The rows of the query when the identifier is one user's only.\<close>

lemma users_by_login_single:
  assumes "distinct (map u_id (users s))" "u \<in> set (users s)" "username u = x \<or> email u = x"
    and "\<forall>v\<in>set (users s). username v = x \<or> email v = x \<longrightarrow> v = u"
  shows "users_by_login s (Some x) = [u]"
proof -
  have "filter (\<lambda>v. username v = x \<or> email v = x) (users s)
      = filter (\<lambda>v. u_id v = u_id u) (users s)"
  proof (rule filter_cong [OF refl])
    fix v assume v: "v \<in> set (users s)"
    from distinct_map_same [OF assms(1) v assms(2)] assms(3,4) v
    show "(username v = x \<or> email v = x) = (u_id v = u_id u)"
      by blast
  qed
  also have "\<dots> = [u]"
    using assms(1,2) by (rule filter_distinct_single)
  finally show ?thesis
    by (simp add: users_by_login_def)
qed

lemma users_by_login_none:
  "\<forall>u\<in>set (users s). username u \<noteq> x \<and> email u \<noteq> x \<Longrightarrow> users_by_login s (Some x) = []"
  by (auto simp: users_by_login_def filter_empty_conv)

lemma users_by_login_member:
  "users_by_login s (Some x) = u # us \<Longrightarrow> u \<in> set (users s) \<and> (username u = x \<or> email u = x)"
proof -
  assume "users_by_login s (Some x) = u # us"
  then have "u \<in> set (filter (\<lambda>u. username u = x \<or> email u = x) (users s))"
    by (simp add: users_by_login_def)
  then show ?thesis by simp
qed

text \<open>
  C5, as the code has it.  Take a database that the constraints hold in and an
  identifier without the character NUL.  A login whose identifier is the username and
  the email of no user, or whose password matches the hash of no user that the
  identifier names, is answered with status 401 and \<^verbatim>\<open>Invalid credentials\<close>, and the
  database is as before.  When the identifier is the username or the email of exactly
  one user and the password matches that user's hash, the login is answered with the
  user's id, name, email, avatar and bio and a token signed for the id and the name;
  the user's \<^verbatim>\<open>last_seen\<close> becomes the clock's time, which is not before the old
  value, and nothing else changes.  (When the identifier is the username of one user
  and the email of another, the handler checks the password against the one row that
  the database returns first.)
\<close>

theorem login_outcomes:
  assumes "consistent s" "CHR 0x00 \<notin> set x"
  shows "((\<forall>u\<in>set (users s). username u \<noteq> x \<and> email u \<noteq> x) \<longrightarrow>
            login e s (Some x) pw
              = (res_status_json 401 (Error_message ''Invalid credentials''), s))
     \<and> login e s None pw = (res_status_json 401 (Error_message ''Invalid credentials''), s)
     \<and> (\<forall>p. pw = Some p
              \<and> (\<forall>u\<in>set (users s). username u = x \<or> email u = x \<longrightarrow>
                    \<not> bcrypt_compare e p (password_hash u)) \<longrightarrow>
            login e s (Some x) pw
              = (res_status_json 401 (Error_message ''Invalid credentials''), s))
     \<and> (\<forall>u p. u \<in> set (users s) \<and> (username u = x \<or> email u = x)
                \<and> (\<forall>v\<in>set (users s). username v = x \<or> email v = x \<longrightarrow> v = u)
                \<and> pw = Some p \<and> bcrypt_compare e p (password_hash u) \<longrightarrow>
            fst (login e s (Some x) pw)
              = res_json (Logged_in (u_id u) (username u) (email u) (avatar_url u) (bio u)
                            (jwt_sign e (u_id u) (username u) (secret e)))
            \<and> mset (users (snd (login e s (Some x) pw)))
                = mset (map (\<lambda>r. if r = u then r\<lparr>last_seen := clock s\<rparr> else r) (users s))
            \<and> (snd (login e s (Some x) pw))\<lparr>users := users s\<rparr> = s
            \<and> last_seen u \<le> clock s)"
proof -
  from assms(2) have clean: "pg_text (Some x) = Inr (Some x)"
    by (rule pg_text_clean)
  from assms(1) have d: "distinct (map u_id (users s))"
    by (simp add: consistent_def users_ok_def)
  have none: "login e s (Some x) pw
      = (res_status_json 401 (Error_message ''Invalid credentials''), s)"
    if "\<forall>u\<in>set (users s). username u \<noteq> x \<and> email u \<noteq> x"
    using users_by_login_none [OF that] by (simp add: login_def clean)
  have null: "login e s None pw
      = (res_status_json 401 (Error_message ''Invalid credentials''), s)"
    by (simp add: login_def pg_text_def users_by_login_def)
  have wrong: "login e s (Some x) pw
      = (res_status_json 401 (Error_message ''Invalid credentials''), s)"
    if "pw = Some p \<and> (\<forall>u\<in>set (users s). username u = x \<or> email u = x \<longrightarrow>
                    \<not> bcrypt_compare e p (password_hash u))" for p
  proof (cases "users_by_login s (Some x)")
    case Nil
    then show ?thesis by (simp add: login_def clean)
  next
    case (Cons u us)
    from users_by_login_member [OF Cons] that have "\<not> bcrypt_compare e p (password_hash u)"
      by blast
    with Cons that show ?thesis by (simp add: login_def clean)
  qed
  have right: "fst (login e s (Some x) pw)
          = res_json (Logged_in (u_id u) (username u) (email u) (avatar_url u) (bio u)
                        (jwt_sign e (u_id u) (username u) (secret e)))
        \<and> mset (users (snd (login e s (Some x) pw)))
            = mset (map (\<lambda>r. if r = u then r\<lparr>last_seen := clock s\<rparr> else r) (users s))
        \<and> (snd (login e s (Some x) pw))\<lparr>users := users s\<rparr> = s
        \<and> last_seen u \<le> clock s"
    if "u \<in> set (users s) \<and> (username u = x \<or> email u = x)
        \<and> (\<forall>v\<in>set (users s). username v = x \<or> email v = x \<longrightarrow> v = u)
        \<and> pw = Some p \<and> bcrypt_compare e p (password_hash u)" for u p
  proof -
    from that have u: "u \<in> set (users s)" and pw: "pw = Some p"
      "bcrypt_compare e p (password_hash u)"
      by simp_all
    from that have "users_by_login s (Some x) = [u]"
      by (intro users_by_login_single d) simp_all
    with pw have run: "login e s (Some x) pw
        = (res_json (Logged_in (u_id u) (username u) (email u) (avatar_url u) (bio u)
                       (jwt_sign e (u_id u) (username u) (secret e))),
           touch_last_seen (u_id u) s)"
      by (simp add: login_def clean)
    have "(u_id r = u_id u) = (r = u)" if "r \<in> set (users s)" for r
      using distinct_map_same [OF d that u] by auto
    then have "map (\<lambda>r. if u_id r = u_id u then r\<lparr>last_seen := clock s\<rparr> else r) (users s)
        = map (\<lambda>r. if r = u then r\<lparr>last_seen := clock s\<rparr> else r) (users s)"
      by (intro map_cong refl) simp
    moreover have "users (touch_last_seen (u_id u) s)
        = update_rows (\<lambda>r. u_id r = u_id u) (\<lambda>r. r\<lparr>last_seen := clock s\<rparr>) (users s)"
      by (simp add: touch_last_seen_def)
    ultimately have "mset (users (touch_last_seen (u_id u) s))
        = mset (map (\<lambda>r. if r = u then r\<lparr>last_seen := clock s\<rparr> else r) (users s))"
      by (simp only: mset_update_rows)
    moreover have "(touch_last_seen (u_id u) s)\<lparr>users := users s\<rparr> = s"
      by (simp add: touch_last_seen_def)
    moreover from assms(1) u have "last_seen u \<le> clock s"
      by (simp add: consistent_def users_ok_def)
    ultimately show ?thesis
      by (simp add: run)
  qed
  from none null wrong right show ?thesis
    by blast
qed

theorem login_outcomes_witness:
  "consistent (tick 6 example_store)
   \<and> login example_env (tick 6 example_store) (Some ''carol'') (Some ''hunter2'')
       = (res_status_json 401 (Error_message ''Invalid credentials''), tick 6 example_store)
   \<and> login example_env (tick 6 example_store) (Some ''bob'') (Some ''letmein'')
       = (res_status_json 401 (Error_message ''Invalid credentials''), tick 6 example_store)
   \<and> fst (login example_env (tick 6 example_store) (Some ''bob@nexus.com'') (Some ''hunter2''))
       = res_json (Logged_in 2 ''bob'' ''bob@nexus.com'' None None ''bob.nexus-secret-key'')
   \<and> map (\<lambda>u. (u_id u, last_seen u)) (users (tick 6 example_store)) = [(1, 0), (2, 3)]
   \<and> mset (map (\<lambda>u. (u_id u, last_seen u))
              (users (snd (login example_env (tick 6 example_store)
                             (Some ''bob@nexus.com'') (Some ''hunter2'')))))
       = {#(1, 0), (2, 10)#}"
proof -
  let ?s = "tick 6 example_store"
  let ?bob = "users example_store ! 1"
  let ?in = "login example_env ?s (Some ''bob@nexus.com'') (Some ''hunter2'')"
  have ok: "consistent ?s"
    using example_consistent by (rule consistent_tick)
  have users: "users ?s = users example_store"
    by (simp add: tick_def)
  have none: "\<forall>u\<in>set (users ?s). username u \<noteq> ''carol'' \<and> email u \<noteq> ''carol''"
    unfolding users by (simp add: example_store_def)
  have wrong: "\<forall>u\<in>set (users ?s). username u = ''bob'' \<or> email u = ''bob'' \<longrightarrow>
      \<not> bcrypt_compare example_env ''letmein'' (password_hash u)"
    unfolding users by (simp add: example_store_def example_defs)
  have bob: "?bob \<in> set (users ?s)" "username ?bob = ''bob@nexus.com'' \<or> email ?bob = ''bob@nexus.com''"
    "\<forall>v\<in>set (users ?s). username v = ''bob@nexus.com'' \<or> email v = ''bob@nexus.com'' \<longrightarrow> v = ?bob"
    "bcrypt_compare example_env ''hunter2'' (password_hash ?bob)"
    unfolding users by (simp_all add: example_store_def example_defs)
  from login_outcomes [OF ok, of "''carol''" example_env "Some ''hunter2''"] none
  have r1: "login example_env ?s (Some ''carol'') (Some ''hunter2'')
       = (res_status_json 401 (Error_message ''Invalid credentials''), ?s)"
    by simp
  from login_outcomes [OF ok, of "''bob''" example_env "Some ''letmein''"] wrong
  have r2: "login example_env ?s (Some ''bob'') (Some ''letmein'')
       = (res_status_json 401 (Error_message ''Invalid credentials''), ?s)"
    by simp
  have nul: "CHR 0x00 \<notin> set ''bob@nexus.com''"
    by simp
  have "?bob \<in> set (users ?s)
      \<and> (username ?bob = ''bob@nexus.com'' \<or> email ?bob = ''bob@nexus.com'')
      \<and> (\<forall>v\<in>set (users ?s). username v = ''bob@nexus.com'' \<or> email v = ''bob@nexus.com''
             \<longrightarrow> v = ?bob)
      \<and> Some ''hunter2'' = Some ''hunter2''
      \<and> bcrypt_compare example_env ''hunter2'' (password_hash ?bob)"
    by (intro conjI bob refl)
  from login_outcomes [OF ok nul, of example_env "Some ''hunter2''", THEN conjunct2,
      THEN conjunct2, THEN conjunct2, rule_format, OF this]
  have r3: "fst ?in
      = res_json (Logged_in (u_id ?bob) (username ?bob) (email ?bob) (avatar_url ?bob)
                     (bio ?bob) (jwt_sign example_env (u_id ?bob) (username ?bob)
                        (secret example_env)))"
    "mset (users (snd ?in))
      = mset (map (\<lambda>r. if r = ?bob then r\<lparr>last_seen := clock ?s\<rparr> else r) (users ?s))"
    by blast+
  have "mset (map (\<lambda>u. (u_id u, last_seen u)) (users (snd ?in)))
      = image_mset (\<lambda>u. (u_id u, last_seen u)) (mset (users (snd ?in)))"
    by simp
  also have "\<dots> = {#(1, 0), (2, 10)#}"
    unfolding r3(2) by (simp add: tick_def example_store_def)
  finally have after: "mset (map (\<lambda>u. (u_id u, last_seen u)) (users (snd ?in)))
      = {#(1, 0), (2, 10)#}" .
  have before: "map (\<lambda>u. (u_id u, last_seen u)) (users ?s) = [(1, 0), (2, 3)]"
    unfolding users by (simp add: example_store_def)
  have r3': "fst ?in
      = res_json (Logged_in 2 ''bob'' ''bob@nexus.com'' None None ''bob.nexus-secret-key'')"
    unfolding r3(1) by (simp add: example_store_def example_env_def secret_def)
  from ok r1 r2 r3' before after show ?thesis
    by (simp only: simp_thms)
qed

lemma snd_serve_append:
  "snd (serve e s (rs @ rs')) = snd (serve e (snd (serve e s rs)) rs')"
proof (induction rs arbitrary: s)
  case Nil
  then show ?case by simp
next
  case (Cons a rs)
  obtain dt r where a: "a = (dt, r)" by (cases a)
  show ?case
    by (simp only: a append_Cons snd_serve_Cons Cons.IH)
qed

lemma namesake_reached:
  "snd (serve example_env example_store [namesake_request]) = namesake_store"
  by (simp add: namesake_request_def namesake_store_def register_def users_insert_def
        varchar_param_def varchar_def pg_text_def nextval_def example_defs Let_def tick_def
        example_store_def)

text \<open>
  The third user of \<open>namesake_store\<close> has the username \<^verbatim>\<open>bob@nexus.com\<close>, which is the
  second user's email, and the password \<^verbatim>\<open>evepw\<close>.  The query returns the second
  user's row first, the password is compared with that row's hash only, and the third
  user's correct credentials are answered with status 401.
\<close>

theorem login_namesake_refused:
  "snd (serve example_env (initDB example_env (fresh 0)) (example_requests @ [namesake_request]))
     = namesake_store
   \<and> map (\<lambda>u. (u_id u, username u, email u)) (users namesake_store)
       = [(1, ''admin'', ''admin@nexus.com''), (2, ''bob'', ''bob@nexus.com''),
          (3, ''bob@nexus.com'', ''eve@nexus.com'')]
   \<and> bcrypt_compare example_env ''evepw'' (password_hash (users namesake_store ! 2))
   \<and> login example_env namesake_store (Some ''bob@nexus.com'') (Some ''evepw'')
       = (res_status_json 401 (Error_message ''Invalid credentials''), namesake_store)"
proof -
  have "snd (serve example_env (initDB example_env (fresh 0))
                    (example_requests @ [namesake_request])) = namesake_store"
    by (simp only: snd_serve_append example_reached namesake_reached)
  moreover have "map (\<lambda>u. (u_id u, username u, email u)) (users namesake_store)
       = [(1, ''admin'', ''admin@nexus.com''), (2, ''bob'', ''bob@nexus.com''),
          (3, ''bob@nexus.com'', ''eve@nexus.com'')]"
    "bcrypt_compare example_env ''evepw'' (password_hash (users namesake_store ! 2))"
    by (simp_all add: namesake_store_def example_store_def example_defs)
  moreover have "login example_env namesake_store (Some ''bob@nexus.com'') (Some ''evepw'')
       = (res_status_json 401 (Error_message ''Invalid credentials''), namesake_store)"
    by (simp add: login_def users_by_login_def pg_text_def namesake_store_def
          example_store_def example_defs)
  ultimately show ?thesis
    by (simp only: simp_thms)
qed

section \<open>Toggling a like\<close>

lemma liked_iff: "liked s uid pid = (filter (like_matches (Some uid) pid) (likes s) \<noteq> [])"
  by (auto simp: liked_def like_matches_def filter_empty_conv)

lemma toggle_like_unlike:
  assumes "consistent s" "bounded s"
    and "pg_int e (js_or user_id (JNum 1)) = Inr (Some uid)" "int4_in e post_id = Inr pid"
    and "liked s uid pid"
  shows "toggle_like e s user_id post_id
     = (res_json (Liked False),
        s\<lparr>likes := filter (\<lambda>l. \<not> like_matches (Some uid) pid l) (likes s),
          posts := update_rows (\<lambda>p. p_id p = pid)
                     (\<lambda>p. p\<lparr>likes_count := likes_count p + (- 1)\<rparr>) (posts s)\<rparr>)"
  using assms(3-5) unlike_result [OF assms(1,2), where pid = pid and uid = "Some uid"]
  by (simp add: toggle_like_def liked_iff)

lemma likes_insert_checks:
  assumes "likes_ok s" "\<not> liked s uid pid" "likes_seq s \<le> 2147483647"
  shows "likes_insert s (Some uid) (Some pid)
     = (if uid \<notin> set (map u_id (users s))
          then (Inl (Foreign_key_violation ''likes_user_id_fkey''),
                s\<lparr>likes_seq := likes_seq s + 1\<rparr>)
        else if pid \<notin> set (map p_id (posts s))
          then (Inl (Foreign_key_violation ''likes_post_id_fkey''),
                s\<lparr>likes_seq := likes_seq s + 1\<rparr>)
        else (Inr \<lparr>l_id = likes_seq s, l_user_id = Some uid, l_post_id = Some pid,
                    l_created_at = clock s\<rparr>,
              s\<lparr>likes_seq := likes_seq s + 1,
                likes := likes s @ [\<lparr>l_id = likes_seq s, l_user_id = Some uid,
                                      l_post_id = Some pid, l_created_at = clock s\<rparr>]\<rparr>))"
proof -
  from assms(1) have "\<forall>l\<in>set (likes s). l_id l \<noteq> likes_seq s"
    by (auto simp: likes_ok_def)
  then have pk: "likes_seq s \<notin> set (map l_id (likes s))"
    by (auto simp: image_iff)
  from assms(2) have uq: "(Some uid, Some pid)
      \<notin> set (map (\<lambda>l. (l_user_id l, l_post_id l)) (likes s))"
    by (auto simp: liked_def)
  from pk uq assms(3) show ?thesis
    by (simp add: likes_insert_def references_def nextval_def Let_def)
qed

lemma toggle_like_like:
  assumes "consistent s" "bounded s"
    and "pg_int e (js_or user_id (JNum 1)) = Inr (Some uid)" "int4_in e post_id = Inr pid"
    and "\<not> liked s uid pid" "likes_seq s \<le> 2147483647"
    and "uid \<in> set (map u_id (users s))" "pid \<in> set (map p_id (posts s))"
  shows "toggle_like e s user_id post_id
     = (res_json (Liked True),
        s\<lparr>likes_seq := likes_seq s + 1,
          likes := likes s @ [\<lparr>l_id = likes_seq s, l_user_id = Some uid,
                                l_post_id = Some pid, l_created_at = clock s\<rparr>],
          posts := update_rows (\<lambda>p. p_id p = pid)
                     (\<lambda>p. p\<lparr>likes_count := likes_count p + 1\<rparr>) (posts s)\<rparr>)"
proof -
  let ?row = "\<lparr>l_id = likes_seq s, l_user_id = Some uid, l_post_id = Some pid,
               l_created_at = clock s\<rparr>"
  let ?s1 = "s\<lparr>likes_seq := likes_seq s + 1, likes := likes s @ [?row]\<rparr>"
  from assms(1) have "likes_ok s" by (simp add: consistent_def)
  from likes_insert_checks [OF this assms(5,6)] assms(7,8)
  have ins: "likes_insert s (Some uid) (Some pid) = (Inr ?row, ?s1)"
    by simp
  from like_result [OF assms(1,2) ins] ins assms(3-5) show ?thesis
    by (simp add: toggle_like_def liked_iff)
qed

lemma toggle_like_refused:
  assumes "consistent s"
    and "pg_int e (js_or user_id (JNum 1)) = Inr (Some uid)" "int4_in e post_id = Inr pid"
    and "\<not> liked s uid pid" "likes_seq s \<le> 2147483647"
    and "uid \<notin> set (map u_id (users s)) \<or> pid \<notin> set (map p_id (posts s))"
  shows "toggle_like e s user_id post_id
     = (res_status_json 500 (Error_thrown (Pg (Foreign_key_violation
          (if uid \<in> set (map u_id (users s)) then ''likes_post_id_fkey''
           else ''likes_user_id_fkey'')))),
        s\<lparr>likes_seq := likes_seq s + 1\<rparr>)"
proof -
  from assms(1) have "likes_ok s" by (simp add: consistent_def)
  from likes_insert_checks [OF this assms(4,5)] assms(2,3,4,6) show ?thesis
    by (auto simp: toggle_like_def liked_iff)
qed

text \<open>A like on a post that does not exist.\<close>

lemma toggle_like_no_post:
  assumes "likes_ok s"
    and "\<forall>pid. int4_in e post_id = Inr pid \<longrightarrow> pid \<notin> set (map p_id (posts s))"
  shows "\<exists>err n. toggle_like e s user_id post_id
     = (res_status_json 500 (Error_thrown (Pg err)), s\<lparr>likes_seq := n\<rparr>)"
proof (cases "pg_int e (js_or user_id (JNum 1))")
  case (Inl err)
  then have "toggle_like e s user_id post_id
     = (res_status_json 500 (Error_thrown (Pg err)), s\<lparr>likes_seq := likes_seq s\<rparr>)"
    by (simp add: toggle_like_def)
  then show ?thesis by blast
next
  case uid: (Inr uid)
  show ?thesis
  proof (cases "int4_in e post_id")
    case (Inl err)
    with uid have "toggle_like e s user_id post_id
       = (res_status_json 500 (Error_thrown (Pg err)), s\<lparr>likes_seq := likes_seq s\<rparr>)"
      by (simp add: toggle_like_def)
    then show ?thesis by blast
  next
    case (Inr pid)
    with assms(2) have missing: "pid \<notin> set (map p_id (posts s))" by simp
    have "l_post_id l \<noteq> Some pid" if "l \<in> set (likes s)" for l
      using assms(1) missing that by (fastforce simp: likes_ok_def image_iff)
    then have no_row: "filter (like_matches uid pid) (likes s) = []"
      by (simp add: filter_empty_conv like_matches_def)
    obtain r s1 where ins: "likes_insert s uid (Some pid) = (r, s1)"
      by (cases "likes_insert s uid (Some pid)")
    show ?thesis
    proof (cases r)
      case (Inl err)
      with ins have "likes_insert s uid (Some pid) = (Inl err, s1)" by simp
      from likes_insert_Inl [OF this]
      have "s1 = s\<lparr>likes_seq := likes_seq s\<rparr> \<or> s1 = s\<lparr>likes_seq := likes_seq s + 1\<rparr>"
        by auto
      with ins Inl uid Inr no_row
      have "toggle_like e s user_id post_id
           = (res_status_json 500 (Error_thrown (Pg err)), s\<lparr>likes_seq := likes_seq s\<rparr>)
         \<or> toggle_like e s user_id post_id
           = (res_status_json 500 (Error_thrown (Pg err)), s\<lparr>likes_seq := likes_seq s + 1\<rparr>)"
        by (auto simp: toggle_like_def)
      then show ?thesis by blast
    next
      case (Inr l)
      with ins have "likes_insert s uid (Some pid) = (Inr l, s1)" by simp
      from likes_insert_Inr [OF this] have "references (Some pid) (map p_id (posts s))"
        by simp
      with missing show ?thesis by (simp add: references_def)
    qed
  qed
qed

text \<open>
  C8, as the code has it.  In a database that the constraints hold in, when the path
  names no post (it is the id of no post row, or no 32-bit integer at all), toggling a
  like is answered with status 500 and the error that PostgreSQL raised, and the rows
  of every table are as before.  The status is never 404: the handler does not look
  the post up.  The error is the one of the \<^verbatim>\<open>user_id\<close> if that is no 32-bit integer,
  else the one of the path if that is none; else, while the sequence of \<^verbatim>\<open>likes\<close> has
  a value left, the insert violates the foreign key of \<^verbatim>\<open>likes.user_id\<close> if the user
  does not exist either, and the foreign key of \<^verbatim>\<open>likes.post_id\<close> if the user exists.
\<close>

theorem toggle_like_missing_post_500:
  assumes "consistent s"
    and "\<forall>pid. int4_in e post_id = Inr pid \<longrightarrow> pid \<notin> set (map p_id (posts s))"
  shows "(\<exists>err. fst (toggle_like e s user_id post_id)
                  = res_status_json 500 (Error_thrown (Pg err)))
     \<and> status (fst (toggle_like e s user_id post_id)) = 500
     \<and> tables (snd (toggle_like e s user_id post_id)) = tables s
     \<and> (\<forall>err. pg_int e (js_or user_id (JNum 1)) = Inl err \<longrightarrow>
           fst (toggle_like e s user_id post_id) = res_status_json 500 (Error_thrown (Pg err)))
     \<and> (\<forall>uid err. pg_int e (js_or user_id (JNum 1)) = Inr uid \<and> int4_in e post_id = Inl err \<longrightarrow>
           fst (toggle_like e s user_id post_id) = res_status_json 500 (Error_thrown (Pg err)))
     \<and> (\<forall>uid pid. pg_int e (js_or user_id (JNum 1)) = Inr (Some uid)
                    \<and> int4_in e post_id = Inr pid \<and> likes_seq s \<le> 2147483647 \<longrightarrow>
           fst (toggle_like e s user_id post_id)
             = res_status_json 500 (Error_thrown (Pg (Foreign_key_violation
                 (if uid \<in> set (map u_id (users s)) then ''likes_post_id_fkey''
                  else ''likes_user_id_fkey'')))))"
proof -
  from assms(1) have ok: "likes_ok s" by (simp add: consistent_def)
  from toggle_like_no_post [OF this assms(2)]
  obtain err n where "toggle_like e s user_id post_id
     = (res_status_json 500 (Error_thrown (Pg err)), s\<lparr>likes_seq := n\<rparr>)"
    by blast
  then have general: "(\<exists>err. fst (toggle_like e s user_id post_id)
                  = res_status_json 500 (Error_thrown (Pg err)))
     \<and> status (fst (toggle_like e s user_id post_id)) = 500
     \<and> tables (snd (toggle_like e s user_id post_id)) = tables s"
    by (simp add: res_status_json_def tables_def)
  have user: "fst (toggle_like e s user_id post_id) = res_status_json 500 (Error_thrown (Pg err))"
    if "pg_int e (js_or user_id (JNum 1)) = Inl err" for err
    using that by (simp add: toggle_like_def)
  have path: "fst (toggle_like e s user_id post_id) = res_status_json 500 (Error_thrown (Pg err))"
    if "pg_int e (js_or user_id (JNum 1)) = Inr uid \<and> int4_in e post_id = Inl err" for uid err
    using that by (simp add: toggle_like_def)
  have key: "fst (toggle_like e s user_id post_id)
             = res_status_json 500 (Error_thrown (Pg (Foreign_key_violation
                 (if uid \<in> set (map u_id (users s)) then ''likes_post_id_fkey''
                  else ''likes_user_id_fkey''))))"
    if "pg_int e (js_or user_id (JNum 1)) = Inr (Some uid)
        \<and> int4_in e post_id = Inr pid \<and> likes_seq s \<le> 2147483647" for uid pid
  proof -
    from that assms(2) have missing: "pid \<notin> set (map p_id (posts s))" by simp
    have "l_post_id l \<noteq> Some pid" if "l \<in> set (likes s)" for l
      using ok missing that by (fastforce simp: likes_ok_def image_iff)
    then have "\<not> liked s uid pid"
      by (auto simp: liked_def)
    from toggle_like_refused [OF assms(1) _ _ this] that missing show ?thesis
      by simp
  qed
  from general user path key show ?thesis
    by blast
qed

theorem toggle_like_missing_post_500_witness:
  "consistent example_store
   \<and> int4_in example_env ''9'' = Inr 9 \<and> 9 \<notin> set (map p_id (posts example_store))
   \<and> fst (toggle_like example_env example_store (JNum 1) ''9'')
       = res_status_json 500 (Error_thrown (Pg (Foreign_key_violation ''likes_post_id_fkey'')))
   \<and> fst (toggle_like example_env example_store (JNum 7) ''9'')
       = res_status_json 500 (Error_thrown (Pg (Foreign_key_violation ''likes_user_id_fkey'')))
   \<and> status (fst (toggle_like example_env example_store (JNum 1) ''9'')) = 500
   \<and> tables (snd (toggle_like example_env example_store (JNum 1) ''9'')) = tables example_store"
proof -
  have nine: "int4_in example_env ''9'' = Inr 9"
    by (simp add: int4_in_def in_int4_def example_defs)
  have missing: "9 \<notin> set (map p_id (posts example_store))"
    by (simp add: example_store_def)
  from nine missing
  have none: "\<forall>pid. int4_in example_env ''9'' = Inr pid \<longrightarrow> pid \<notin> set (map p_id (posts example_store))"
    by simp
  have user: "pg_int example_env (js_or (JNum 1) (JNum 1)) = Inr (Some 1)"
    "pg_int example_env (js_or (JNum 7) (JNum 1)) = Inr (Some 7)"
    "1 \<in> set (map u_id (users example_store))" "7 \<notin> set (map u_id (users example_store))"
    "likes_seq example_store \<le> 2147483647"
    by (simp_all add: js_or_def in_int4_def example_store_def)
  note inst = toggle_like_missing_post_500 [OF example_consistent none]
  from inst [of "JNum 1"] user nine
  have one: "fst (toggle_like example_env example_store (JNum 1) ''9'')
       = res_status_json 500 (Error_thrown (Pg (Foreign_key_violation ''likes_post_id_fkey'')))"
    by auto
  from inst [of "JNum 7"] user nine
  have seven: "fst (toggle_like example_env example_store (JNum 7) ''9'')
       = res_status_json 500 (Error_thrown (Pg (Foreign_key_violation ''likes_user_id_fkey'')))"
    by auto
  from inst [of "JNum 1"]
  have "status (fst (toggle_like example_env example_store (JNum 1) ''9'')) = 500"
    "tables (snd (toggle_like example_env example_store (JNum 1) ''9'')) = tables example_store"
    by blast+
  with example_consistent nine missing one seven show ?thesis
    by (simp only: simp_thms)
qed

text \<open>The claim's status 404 is not what the handler sends.\<close>

theorem toggle_like_missing_post_not_404:
  "9 \<notin> set (map p_id (posts example_store))
   \<and> fst (toggle_like example_env example_store (JNum 1) ''9'')
       = \<lparr>status = 500,
          body = Error_thrown (Pg (Foreign_key_violation ''likes_post_id_fkey''))\<rparr>
   \<and> status (fst (toggle_like example_env example_store (JNum 1) ''9'')) \<noteq> 404"
  by (simp add: toggle_like_def likes_insert_def js_or_def references_def like_matches_def
        res_status_json_def int4_in_def in_int4_def nextval_def example_defs example_store_def
        Let_def)

lemma liked_user_exists:
  assumes "likes_ok s" "liked s uid pid"
  shows "uid \<in> set (map u_id (users s))"
proof -
  from assms(2) obtain l where "l \<in> set (likes s)" "l_user_id l = Some uid"
    by (auto simp: liked_def)
  with assms(1) have "Some uid \<in> Some ` set (map u_id (users s))"
    by (auto simp: likes_ok_def simp del: set_map)
  then show ?thesis by blast
qed

lemma update_rows_back:
  assumes "\<And>x. P (f x) = P x" "\<And>x. g (f x) = x"
  shows "mset (update_rows P g (update_rows P f xs)) = mset xs"
proof -
  have "map (\<lambda>x. if P x then g x else x) (map (\<lambda>x. if P x then f x else x) xs) = xs"
    using assms by (induction xs) auto
  then have "mset (map (\<lambda>x. if P x then g x else x) (map (\<lambda>x. if P x then f x else x) xs))
      = mset xs"
    by simp
  then show ?thesis
    by (simp only: mset_update_rows mset_map)
qed

text \<open>Unlike, then like again.\<close>

lemma toggle_like_twice_liked:
  assumes "consistent s" "bounded s"
    and "pg_int e (js_or user_id (JNum 1)) = Inr (Some uid)" "int4_in e post_id = Inr pid"
    and "pid \<in> set (map p_id (posts s))" "liked s uid pid" "likes_seq s \<le> 2147483647"
    and "toggle_like e s user_id post_id = (r1, s1)"
    and "toggle_like e s1 user_id post_id = (r2, s2)"
  shows "r1 = res_json (Liked False) \<and> r2 = res_json (Liked True)
         \<and> liked s2 uid pid \<and> mset (posts s2) = mset (posts s)"
proof -
  let ?down = "update_rows (\<lambda>p. p_id p = pid) (\<lambda>p. p\<lparr>likes_count := likes_count p + (- 1)\<rparr>)"
  let ?up = "update_rows (\<lambda>p. p_id p = pid) (\<lambda>p. p\<lparr>likes_count := likes_count p + 1\<rparr>)"
  from toggle_like_unlike [OF assms(1-4,6)] assms(8)
  have r1: "r1 = res_json (Liked False)"
    and s1: "s1 = s\<lparr>likes := filter (\<lambda>l. \<not> like_matches (Some uid) pid l) (likes s),
                     posts := ?down (posts s)\<rparr>"
    by simp_all
  from assms(1) have "likes_ok s" by (simp add: consistent_def)
  from liked_user_exists [OF this assms(6)] have user: "uid \<in> set (map u_id (users s1))"
    by (simp add: s1)
  from assms(5) have post: "pid \<in> set (map p_id (posts s1))"
    using set_map_update_rows [of p_id "\<lambda>p. p\<lparr>likes_count := likes_count p + (- 1)\<rparr>"
        "\<lambda>p. p_id p = pid" "posts s"]
    by (simp add: s1)
  from kept_toggle_like [OF assms(1,2), of e user_id post_id] assms(8)
  have ok1: "consistent s1" "bounded s1" by simp_all
  have not1: "\<not> liked s1 uid pid"
    by (auto simp: s1 liked_def like_matches_def)
  from assms(7) have seq1: "likes_seq s1 \<le> 2147483647"
    by (simp add: s1)
  from toggle_like_like [OF ok1 assms(3,4) not1 seq1 user post] assms(9)
  have r2: "r2 = res_json (Liked True)"
    and s2: "s2 = s1\<lparr>likes_seq := likes_seq s1 + 1,
          likes := likes s1 @ [\<lparr>l_id = likes_seq s1, l_user_id = Some uid,
                                 l_post_id = Some pid, l_created_at = clock s1\<rparr>],
          posts := ?up (posts s1)\<rparr>"
    by simp_all
  have "liked s2 uid pid"
    by (simp add: s2 liked_def)
  moreover have "mset (posts s2) = mset (posts s)"
    using update_rows_back [of "\<lambda>p. p_id p = pid"
        "\<lambda>p. p\<lparr>likes_count := likes_count p + (- 1)\<rparr>"
        "\<lambda>p. p\<lparr>likes_count := likes_count p + 1\<rparr>" "posts s"]
    by (simp add: s2 s1)
  ultimately show ?thesis
    using r1 r2 by simp
qed

text \<open>Like, then unlike again.\<close>

lemma toggle_like_twice_not_liked:
  assumes "consistent s" "bounded s"
    and "pg_int e (js_or user_id (JNum 1)) = Inr (Some uid)" "int4_in e post_id = Inr pid"
    and "pid \<in> set (map p_id (posts s))" "\<not> liked s uid pid" "likes_seq s \<le> 2147483647"
    and "uid \<in> set (map u_id (users s))"
    and "toggle_like e s user_id post_id = (r1, s1)"
    and "toggle_like e s1 user_id post_id = (r2, s2)"
  shows "r1 = res_json (Liked True) \<and> r2 = res_json (Liked False)
         \<and> \<not> liked s2 uid pid \<and> mset (posts s2) = mset (posts s) \<and> likes s2 = likes s"
proof -
  let ?row = "\<lparr>l_id = likes_seq s, l_user_id = Some uid, l_post_id = Some pid,
               l_created_at = clock s\<rparr>"
  let ?down = "update_rows (\<lambda>p. p_id p = pid) (\<lambda>p. p\<lparr>likes_count := likes_count p + (- 1)\<rparr>)"
  let ?up = "update_rows (\<lambda>p. p_id p = pid) (\<lambda>p. p\<lparr>likes_count := likes_count p + 1\<rparr>)"
  from toggle_like_like [OF assms(1-4,6,7,8,5)] assms(9)
  have r1: "r1 = res_json (Liked True)"
    and s1: "s1 = s\<lparr>likes_seq := likes_seq s + 1, likes := likes s @ [?row],
                     posts := ?up (posts s)\<rparr>"
    by simp_all
  from kept_toggle_like [OF assms(1,2), of e user_id post_id] assms(9)
  have ok1: "consistent s1" "bounded s1" by simp_all
  have now1: "liked s1 uid pid"
    by (simp add: s1 liked_def)
  from toggle_like_unlike [OF ok1 assms(3,4) now1] assms(10)
  have r2: "r2 = res_json (Liked False)"
    and s2: "s2 = s1\<lparr>likes := filter (\<lambda>l. \<not> like_matches (Some uid) pid l) (likes s1),
                      posts := ?down (posts s1)\<rparr>"
    by simp_all
  from assms(6) have "\<forall>l\<in>set (likes s). \<not> like_matches (Some uid) pid l"
    by (auto simp: liked_def like_matches_def)
  then have keep: "filter (\<lambda>l. \<not> like_matches (Some uid) pid l) (likes s) = likes s"
    by (simp add: filter_id_conv)
  have row: "like_matches (Some uid) pid ?row"
    by (simp add: like_matches_def)
  have likes2: "likes s2 = likes s"
    by (simp add: s2 s1 keep row)
  then have "\<not> liked s2 uid pid"
    using assms(6) by (simp add: liked_def)
  moreover have "mset (posts s2) = mset (posts s)"
    using update_rows_back [of "\<lambda>p. p_id p = pid"
        "\<lambda>p. p\<lparr>likes_count := likes_count p + 1\<rparr>"
        "\<lambda>p. p\<lparr>likes_count := likes_count p + (- 1)\<rparr>" "posts s"]
    by (simp add: s2 s1)
  ultimately show ?thesis
    using r1 r2 likes2 by simp
qed

text \<open>A user that does not exist: the foreign key refuses the row, and nothing changes.\<close>

lemma toggle_like_twice_no_user:
  assumes "consistent s" "bounded s"
    and "pg_int e (js_or user_id (JNum 1)) = Inr (Some uid)" "int4_in e post_id = Inr pid"
    and "\<not> liked s uid pid" "uid \<notin> set (map u_id (users s))" "likes_seq s \<le> 2147483647"
    and "toggle_like e s user_id post_id = (r1, s1)"
    and "toggle_like e s1 user_id post_id = (r2, s2)"
  shows "r1 = res_status_json 500
                (Error_thrown (Pg (Foreign_key_violation ''likes_user_id_fkey'')))
         \<and> tables s1 = tables s \<and> tables s2 = tables s"
proof -
  from toggle_like_refused [OF assms(1,3,4,5,7)] assms(6,8)
  have r1: "r1 = res_status_json 500
                (Error_thrown (Pg (Foreign_key_violation ''likes_user_id_fkey'')))"
    and s1: "s1 = s\<lparr>likes_seq := likes_seq s + 1\<rparr>"
    by simp_all
  from kept_toggle_like [OF assms(1,2), of e user_id post_id] assms(8)
  have ok1: "consistent s1" "bounded s1" by simp_all
  have same: "likes s1 = likes s" "users s1 = users s" "posts s1 = posts s"
    by (simp_all add: s1)
  have not1: "\<not> liked s1 uid pid"
    using assms(5) by (simp add: liked_def same)
  then have no_row: "filter (like_matches (Some uid) pid) (likes s1) = []"
    by (simp add: liked_iff)
  obtain r s' where ins: "likes_insert s1 (Some uid) (Some pid) = (r, s')"
    by (cases "likes_insert s1 (Some uid) (Some pid)")
  have "tables s2 = tables s1"
  proof (cases r)
    case (Inl err)
    with ins likes_insert_Inl [of s1 "Some uid" "Some pid" err s'] assms(3,4,9) no_row
    show ?thesis by (auto simp: toggle_like_def tables_def)
  next
    case (Inr l)
    with ins likes_insert_Inr [of s1 "Some uid" "Some pid" l s'] assms(6)
    show ?thesis by (simp add: references_def same)
  qed
  then show ?thesis
    by (simp add: r1 s1 tables_def)
qed

text \<open>
  C2, as the code has it.  Take a database that the constraints hold in and in which
  the sequence of \<^verbatim>\<open>likes\<close> has a value left, and a path that is the id of a post.
  Toggle the like twice.  A \<^verbatim>\<open>user_id\<close> that is no 32-bit integer (after a falsy one
  is replaced by 1) is refused by PostgreSQL: the answer is status 500 and nothing
  changes.  For any other \<^verbatim>\<open>user_id\<close> the user has a like row on the post after the
  two toggles exactly if there was one before, and the post rows, so the counter too,
  are what they were.  The first toggle answers \<^verbatim>\<open>{liked: false}\<close> when there was a
  row.  When there was none it answers \<^verbatim>\<open>{liked: true}\<close> if the id is a user's; if it
  is not, the foreign key of \<^verbatim>\<open>likes.user_id\<close> refuses the row, the answer is status
  500 and no table changes.
\<close>

theorem toggle_like_twice:
  assumes "consistent s" "bounded s"
    and "int4_in e post_id = Inr pid" "pid \<in> set (map p_id (posts s))"
    and "likes_seq s \<le> 2147483647"
    and "toggle_like e s user_id post_id = (r1, s1)"
    and "toggle_like e s1 user_id post_id = (r2, s2)"
  shows "(\<forall>err. pg_int e (js_or user_id (JNum 1)) = Inl err \<longrightarrow>
            r1 = res_status_json 500 (Error_thrown (Pg err)) \<and> s1 = s \<and> s2 = s)
     \<and> (\<forall>uid. pg_int e (js_or user_id (JNum 1)) = Inr (Some uid) \<longrightarrow>
            liked s2 uid pid = liked s uid pid
            \<and> mset (posts s2) = mset (posts s)
            \<and> (liked s uid pid \<longrightarrow> r1 = res_json (Liked False))
            \<and> (\<not> liked s uid pid \<and> uid \<in> set (map u_id (users s)) \<longrightarrow>
                  r1 = res_json (Liked True))
            \<and> (\<not> liked s uid pid \<and> uid \<notin> set (map u_id (users s)) \<longrightarrow>
                  r1 = res_status_json 500
                         (Error_thrown (Pg (Foreign_key_violation ''likes_user_id_fkey'')))
                  \<and> tables s1 = tables s))"
proof -
  have refused: "r1 = res_status_json 500 (Error_thrown (Pg err)) \<and> s1 = s \<and> s2 = s"
    if "pg_int e (js_or user_id (JNum 1)) = Inl err" for err
  proof -
    from that assms(6) have "r1 = res_status_json 500 (Error_thrown (Pg err))" "s1 = s"
      by (simp_all add: toggle_like_def)
    moreover from that assms(7) this(2) have "s2 = s"
      by (simp add: toggle_like_def)
    ultimately show ?thesis by simp
  qed
  have bound: "liked s2 uid pid = liked s uid pid
            \<and> mset (posts s2) = mset (posts s)
            \<and> (liked s uid pid \<longrightarrow> r1 = res_json (Liked False))
            \<and> (\<not> liked s uid pid \<and> uid \<in> set (map u_id (users s)) \<longrightarrow>
                  r1 = res_json (Liked True))
            \<and> (\<not> liked s uid pid \<and> uid \<notin> set (map u_id (users s)) \<longrightarrow>
                  r1 = res_status_json 500
                         (Error_thrown (Pg (Foreign_key_violation ''likes_user_id_fkey'')))
                  \<and> tables s1 = tables s)"
    if uid: "pg_int e (js_or user_id (JNum 1)) = Inr (Some uid)" for uid
  proof (cases "liked s uid pid")
    case True
    from toggle_like_twice_liked [OF assms(1,2) uid assms(3,4) True assms(5-7)] True
    show ?thesis by simp
  next
    case False
    show ?thesis
    proof (cases "uid \<in> set (map u_id (users s))")
      case True
      from toggle_like_twice_not_liked [OF assms(1,2) uid assms(3,4) False assms(5) True
          assms(6,7)] False True
      show ?thesis by simp
    next
      case no_user: False
      from toggle_like_twice_no_user [OF assms(1,2) uid assms(3) False no_user assms(5-7)]
      have r1: "r1 = res_status_json 500
                  (Error_thrown (Pg (Foreign_key_violation ''likes_user_id_fkey'')))"
        and same: "tables s1 = tables s" "tables s2 = tables s"
        by simp_all
      from same(2) have "likes s2 = likes s" "posts s2 = posts s"
        by (simp_all add: tables_def)
      then have "liked s2 uid pid = liked s uid pid" "mset (posts s2) = mset (posts s)"
        by (simp_all add: liked_def)
      with r1 same(1) False no_user show ?thesis by simp
    qed
  qed
  from refused bound show ?thesis
    by blast
qed

theorem toggle_like_twice_witness:
  "consistent example_store \<and> bounded example_store
   \<and> int4_in example_env ''1'' = Inr 1
   \<and> 1 \<in> set (map p_id (posts example_store))
   \<and> likes_seq example_store \<le> 2147483647
   \<and> pg_int example_env (js_or (JNum 2) (JNum 1)) = Inr (Some 2)
   \<and> liked example_store 2 1
   \<and> fst (toggle_like example_env example_store (JNum 2) ''1'') = res_json (Liked False)
   \<and> liked (snd (toggle_like example_env
                    (snd (toggle_like example_env example_store (JNum 2) ''1''))
                    (JNum 2) ''1'')) 2 1
   \<and> mset (posts (snd (toggle_like example_env
                          (snd (toggle_like example_env example_store (JNum 2) ''1''))
                          (JNum 2) ''1''))) = mset (posts example_store)
   \<and> pg_int example_env (js_or (JNum 99999999999) (JNum 1)) = Inl Numeric_value_out_of_range
   \<and> toggle_like example_env example_store (JNum 99999999999) ''1''
       = (res_status_json 500 (Error_thrown (Pg Numeric_value_out_of_range)), example_store)"
proof -
  let ?t1 = "toggle_like example_env example_store (JNum 2) ''1''"
  let ?t2 = "toggle_like example_env (snd ?t1) (JNum 2) ''1''"
  let ?u1 = "toggle_like example_env example_store (JNum 99999999999) ''1''"
  let ?u2 = "toggle_like example_env (snd ?u1) (JNum 99999999999) ''1''"
  have uid: "pg_int example_env (js_or (JNum 2) (JNum 1)) = Inr (Some 2)"
    and big: "pg_int example_env (js_or (JNum 99999999999) (JNum 1))
        = Inl Numeric_value_out_of_range"
    by (simp_all add: js_or_def in_int4_def)
  have pid: "int4_in example_env ''1'' = Inr 1"
    by (simp add: int4_in_def in_int4_def example_defs)
  have post: "1 \<in> set (map p_id (posts example_store))"
    and seq: "likes_seq example_store \<le> 2147483647"
    by (simp_all add: example_store_def)
  have was: "liked example_store 2 1"
    by (simp add: liked_def example_store_def)
  have t1: "?t1 = (fst ?t1, snd ?t1)" and t2: "?t2 = (fst ?t2, snd ?t2)"
    and u1: "?u1 = (fst ?u1, snd ?u1)" and u2: "?u2 = (fst ?u2, snd ?u2)"
    by simp_all
  from toggle_like_twice [OF example_consistent example_bounded pid post seq t1 t2] uid was
  have "liked (snd ?t2) 2 1" "mset (posts (snd ?t2)) = mset (posts example_store)"
    "fst ?t1 = res_json (Liked False)"
    by simp_all
  moreover
  from toggle_like_twice [OF example_consistent example_bounded pid post seq u1 u2] big
  have "fst ?u1 = res_status_json 500 (Error_thrown (Pg Numeric_value_out_of_range))"
    "snd ?u1 = example_store"
    by simp_all
  then have "?u1 = (res_status_json 500 (Error_thrown (Pg Numeric_value_out_of_range)),
      example_store)"
    by (metis prod.collapse)
  ultimately show ?thesis
    using example_consistent example_bounded uid big pid post seq was
    by (simp only: simp_thms)
qed

text \<open>
  In the example the user id 7 is no user's, post 1 exists and has no like of 7: the
  first toggle answers 500, not \<^verbatim>\<open>{liked: true}\<close>.
\<close>

theorem toggle_like_unknown_user:
  "1 \<in> set (map p_id (posts example_store))
   \<and> \<not> liked example_store 7 1
   \<and> fst (toggle_like example_env example_store (JNum 7) ''1'')
       = \<lparr>status = 500,
          body = Error_thrown (Pg (Foreign_key_violation ''likes_user_id_fkey''))\<rparr>
   \<and> fst (toggle_like example_env example_store (JNum 7) ''1'') \<noteq> res_json (Liked True)"
  by (simp add: toggle_like_def likes_insert_def js_or_def references_def like_matches_def
        res_status_json_def res_json_def liked_def int4_in_def in_int4_def nextval_def
        example_defs example_store_def Let_def)

section \<open>A request without a user id\<close>

lemma js_or_falsy: "\<not> truthy v \<Longrightarrow> js_or v d = d"
  by (simp add: js_or_def)

lemma pg_int_1: "pg_int e (JNum 1) = Inr (Some 1)"
  by (simp add: in_int4_def)

lemma admin_exists: "admin_is_user_1 s \<Longrightarrow> 1 \<in> set (map u_id (users s))"
  by (auto simp: admin_is_user_1_def image_iff)

text \<open>The topic that \<^verbatim>\<open>POST /api/topics\<close> stores for user 1.\<close>

lemma create_topic_stores:
  assumes "bounded s" "1 \<in> set (map u_id (users s))"
    and "CHR 0x00 \<notin> set ttl" "CHR 0x00 \<notin> set txt" "length ttl \<le> 200"
    and "pg_int e category = Inr cat" "references cat (map c_id (categories s))"
    and "topics_seq s \<le> 2147483647"
  shows "create_topic e s (Some ttl) (Some txt) category (JNum 1)
     = (res_json (Topic_created
          \<lparr>t_id = topics_seq s, title = ttl, t_content = txt, t_user_id = Some 1,
           category_id = cat, views = 0, is_pinned = False, is_locked = False,
           t_created_at = clock s, t_updated_at = clock s\<rparr>),
        s\<lparr>topics_seq := topics_seq s + 1,
          topics := topics s @
            [\<lparr>t_id = topics_seq s, title = ttl, t_content = txt, t_user_id = Some 1,
              category_id = cat, views = 0, is_pinned = False, is_locked = False,
              t_created_at = clock s, t_updated_at = clock s\<rparr>]\<rparr>)"
proof -
  from assms(1) have "\<forall>t\<in>set (topics s). t_id t \<noteq> topics_seq s"
    by (auto simp: bounded_def)
  then have pk: "topics_seq s \<notin> set (map t_id (topics s))"
    by (auto simp: image_iff)
  have user: "references (Some 1) (map u_id (users s))"
    using assms(2) by (simp add: references_def)
  have "topics_insert s (Some ttl) (Some txt) cat (Some 1)
     = (Inr \<lparr>t_id = topics_seq s, title = ttl, t_content = txt, t_user_id = Some 1,
             category_id = cat, views = 0, is_pinned = False, is_locked = False,
             t_created_at = clock s, t_updated_at = clock s\<rparr>,
        s\<lparr>topics_seq := topics_seq s + 1,
          topics := topics s @
            [\<lparr>t_id = topics_seq s, title = ttl, t_content = txt, t_user_id = Some 1,
              category_id = cat, views = 0, is_pinned = False, is_locked = False,
              t_created_at = clock s, t_updated_at = clock s\<rparr>]\<rparr>)"
    using pk user assms(5,7,8)
    by (simp add: topics_insert_def varchar_fits nextval_def Let_def)
  with assms(3,4,6) show ?thesis
    by (simp add: create_topic_def pg_text_clean js_or_def in_int4_def)
qed

text \<open>The post that \<^verbatim>\<open>POST /api/posts\<close> stores for user 1.\<close>

lemma create_post_stores:
  assumes "bounded s" "1 \<in> set (map u_id (users s))"
    and "CHR 0x00 \<notin> set txt"
    and "pg_int e topic = Inr tid" "references tid (map t_id (topics s))"
    and "pg_int e parent = Inr par" "references par (map p_id (posts s))"
    and "posts_seq s \<le> 2147483647"
  shows "fst (create_post e s (Some txt) topic (JNum 1) parent)
       = res_json (Post_created
          \<lparr>p_id = posts_seq s, p_content = txt, topic_id = tid, p_user_id = Some 1,
           parent_id = par, likes_count = 0, p_created_at = clock s,
           p_updated_at = clock s\<rparr>)
     \<and> posts (snd (create_post e s (Some txt) topic (JNum 1) parent))
       = posts s @
          [\<lparr>p_id = posts_seq s, p_content = txt, topic_id = tid, p_user_id = Some 1,
            parent_id = par, likes_count = 0, p_created_at = clock s,
            p_updated_at = clock s\<rparr>]"
proof -
  from assms(1) have "\<forall>p\<in>set (posts s). p_id p \<noteq> posts_seq s"
    by (auto simp: bounded_def)
  then have pk: "posts_seq s \<notin> set (map p_id (posts s))"
    by (auto simp: image_iff)
  have user: "references (Some 1) (map u_id (users s))"
    using assms(2) by (simp add: references_def)
  have "posts_insert s (Some txt) tid (Some 1) par
     = (Inr \<lparr>p_id = posts_seq s, p_content = txt, topic_id = tid, p_user_id = Some 1,
             parent_id = par, likes_count = 0, p_created_at = clock s,
             p_updated_at = clock s\<rparr>,
        s\<lparr>posts_seq := posts_seq s + 1,
          posts := posts s @
            [\<lparr>p_id = posts_seq s, p_content = txt, topic_id = tid, p_user_id = Some 1,
              parent_id = par, likes_count = 0, p_created_at = clock s,
              p_updated_at = clock s\<rparr>]\<rparr>)"
    using pk user assms(5,7,8)
    by (simp add: posts_insert_def nextval_def Let_def)
  with assms(3,4,6) show ?thesis
    by (simp add: create_post_def pg_text_clean js_or_def in_int4_def touch_topic_def)
qed

text \<open>The like row that user 1 gets or loses.\<close>

lemma toggle_like_user_1:
  assumes "consistent s" "bounded s" "1 \<in> set (map u_id (users s))"
    and "int4_in e post_id = Inr pid"
  shows "(pid \<in> set (map p_id (posts s)) \<and> \<not> liked s 1 pid \<and> likes_seq s \<le> 2147483647 \<longrightarrow>
            fst (toggle_like e s (JNum 1) post_id) = res_json (Liked True)
            \<and> likes (snd (toggle_like e s (JNum 1) post_id))
                = likes s @ [\<lparr>l_id = likes_seq s, l_user_id = Some 1, l_post_id = Some pid,
                               l_created_at = clock s\<rparr>])
     \<and> (liked s 1 pid \<longrightarrow>
            fst (toggle_like e s (JNum 1) post_id) = res_json (Liked False)
            \<and> likes (snd (toggle_like e s (JNum 1) post_id))
                = filter (\<lambda>l. \<not> (l_user_id l = Some 1 \<and> l_post_id l = Some pid)) (likes s))"
proof -
  have one: "pg_int e (js_or (JNum 1) (JNum 1)) = Inr (Some 1)"
    by (simp add: js_or_def in_int4_def)
  have "fst (toggle_like e s (JNum 1) post_id) = res_json (Liked True)
      \<and> likes (snd (toggle_like e s (JNum 1) post_id))
          = likes s @ [\<lparr>l_id = likes_seq s, l_user_id = Some 1, l_post_id = Some pid,
                         l_created_at = clock s\<rparr>]"
    if "pid \<in> set (map p_id (posts s))" "\<not> liked s 1 pid" "likes_seq s \<le> 2147483647"
    using toggle_like_like [OF assms(1,2) one assms(4) that(2,3) assms(3) that(1)]
    by simp
  moreover have "fst (toggle_like e s (JNum 1) post_id) = res_json (Liked False)
      \<and> likes (snd (toggle_like e s (JNum 1) post_id))
          = filter (\<lambda>l. \<not> (l_user_id l = Some 1 \<and> l_post_id l = Some pid)) (likes s)"
    if "liked s 1 pid"
    using toggle_like_unlike [OF assms(1,2) one assms(4) that]
    by (simp add: like_matches_def)
  ultimately show ?thesis by blast
qed

text \<open>User 1 is the administrator from \<^verbatim>\<open>initDB\<close> on.\<close>

lemma admin_initDB_fresh:
  assumes "length (bcrypt_hash e ''admin123'') \<le> 255"
    and "CHR 0x00 \<notin> set (bcrypt_hash e ''admin123'')"
  shows "admin_is_user_1 (initDB e (fresh now))"
proof -
  obtain s1 where s1: "categories_insert_default (fresh now) = (Inr (), s1)"
    using categories_insert_default_next [of "fresh now" 1] by (auto simp: fresh_def)
  have empty: "users s1 = []" "users_seq s1 = 1"
    using categories_insert_default_users(1,2) [of "fresh now"] s1
    by (simp_all add: fresh_def)
  from assms have "pg_text (Some (bcrypt_hash e ''admin123'')) = Inr (Some (bcrypt_hash e ''admin123''))"
    "varchar 255 (bcrypt_hash e ''admin123'') = Inr (bcrypt_hash e ''admin123'')"
    by (simp_all add: pg_text_def varchar_def)
  from users_insert_admin_first [OF this empty] s1 show ?thesis
    by (simp add: initDB_def admin_is_user_1_def)
qed

lemma users_of_register:
  "set (users s) \<subseteq> set (users (snd (register e s un em pw)))"
proof -
  have "set (users s) \<subseteq> set (users s1)" if "users_insert s un' em' ph b = (r, s1)"
    for un' em' ph b r s1
    using that by (cases r) (auto dest: users_insert_Inl users_insert_Inr)
  then show ?thesis
    by (auto simp: register_def split: option.splits sum.splits prod.splits)
qed

lemma admin_touch_last_seen:
  assumes "admin_is_user_1 s"
  shows "admin_is_user_1 (touch_last_seen i s)"
proof -
  from assms obtain a where a: "a \<in> set (users s)" "u_id a = 1" "username a = ''admin''"
    by (auto simp: admin_is_user_1_def)
  let ?f = "\<lambda>u. if u_id u = i then u\<lparr>last_seen := clock s\<rparr> else u"
  from a(1) have "?f a \<in> set (users (touch_last_seen i s))"
    by (auto simp: touch_last_seen_def set_update_rows)
  moreover from a have "u_id (?f a) = 1" "username (?f a) = ''admin''"
    by simp_all
  ultimately show ?thesis
    unfolding admin_is_user_1_def by blast
qed

lemma users_of_get_topic: "users (snd (get_topic e s ident)) = users s"
  by (auto simp: get_topic_def split: sum.splits list.splits dest!: bump_views_Inr)

lemma users_of_create_topic: "users (snd (create_topic e s ti co category user_id)) = users s"
proof -
  have "users s1 = users s" if "topics_insert s ti' co' cat uid = (r, s1)" for ti' co' cat uid r s1
    using that by (cases r) (auto dest: topics_insert_Inl topics_insert_Inr)
  then show ?thesis
    by (auto simp: create_topic_def split: sum.splits prod.splits)
qed

lemma users_of_create_post: "users (snd (create_post e s co topic user_id parent)) = users s"
proof -
  have "users s1 = users s" if "posts_insert s co' tid uid par = (r, s1)" for co' tid uid par r s1
    using that by (cases r) (auto dest: posts_insert_Inl posts_insert_Inr)
  then show ?thesis
    by (auto simp: create_post_def touch_topic_def split: sum.splits prod.splits)
qed

lemma users_of_toggle_like: "users (snd (toggle_like e s user_id post_id)) = users s"
proof -
  have "users s1 = users s" if "likes_insert s uid pid = (r, s1)" for uid pid r s1
    using that by (cases r) (auto dest: likes_insert_Inl likes_insert_Inr)
  then show ?thesis
    by (auto simp: toggle_like_def Let_def split: sum.splits prod.splits
          dest!: add_likes_Inr)
qed

lemma admin_handle: "admin_is_user_1 s \<Longrightarrow> admin_is_user_1 (snd (handle e s r))"
proof (cases r)
  case (Register un em pw)
  assume "admin_is_user_1 s"
  with users_of_register [of s e un em pw] Register show ?thesis
    by (auto simp: admin_is_user_1_def)
next
  case (Login ident pw)
  assume "admin_is_user_1 s"
  with Login show ?thesis
    by (auto simp: login_def admin_touch_last_seen split: list.splits option.splits sum.splits)
qed (simp_all add: admin_is_user_1_def users_of_get_topic users_of_create_topic
       users_of_create_post users_of_toggle_like)

lemma admin_serve: "admin_is_user_1 s \<Longrightarrow> admin_is_user_1 (snd (serve e s rs))"
proof (induction rs arbitrary: s)
  case Nil
  then show ?case by simp
next
  case (Cons a rs)
  obtain dt r where a: "a = (dt, r)" by (cases a)
  from Cons.prems have "admin_is_user_1 (tick dt s)"
    by (simp add: admin_is_user_1_def tick_def)
  then have "admin_is_user_1 (snd (handle e (tick dt s) r))"
    by (rule admin_handle)
  then have "admin_is_user_1 (snd (serve e (snd (handle e (tick dt s) r)) rs))"
    by (rule Cons.IH)
  then show ?case
    by (simp only: a snd_serve_Cons)
qed

text \<open>
  C10.  When \<^verbatim>\<open>user_id\<close> is falsy (absent, \<^verbatim>\<open>null\<close>, \<^verbatim>\<open>false\<close>, 0 or the empty
  string), creating a topic, creating a post and toggling a like do exactly what they
  do for \<^verbatim>\<open>user_id\<close> 1: the same response and the same database.  In a database that
  the constraints hold in and in which user 1 is the administrator, the request is
  not rejected for lack of a user: a topic with a title of at most 200 characters, a
  content, and no category or an existing one is stored with user 1 as its author; a
  post with a content, no topic or an existing one, and no parent or an existing one
  is stored with user 1 as its author; a like on an existing post is stored as user
  1's row if user 1 had none on the post, and user 1's row is deleted if there was
  one (the texts without the character NUL, the sequences not at their end).  The
  constraints hold and user 1 is the administrator in every database that the
  requests reach from an empty one, provided the hash of the administrator's password
  fits its column (bcrypt's hashes have sixty characters).
\<close>

theorem falsy_user_id_is_user_1:
  assumes "\<not> truthy user_id"
  shows "create_topic e s ti co category user_id = create_topic e s ti co category (JNum 1)
     \<and> create_post e s co topic user_id parent = create_post e s co topic (JNum 1) parent
     \<and> toggle_like e s user_id post_id = toggle_like e s (JNum 1) post_id
     \<and> (consistent s \<and> bounded s \<and> admin_is_user_1 s \<longrightarrow>
          (\<forall>ttl txt cat.
              CHR 0x00 \<notin> set ttl \<and> CHR 0x00 \<notin> set txt \<and> length ttl \<le> 200
              \<and> pg_int e category = Inr cat \<and> references cat (map c_id (categories s))
              \<and> topics_seq s \<le> 2147483647 \<longrightarrow>
                create_topic e s (Some ttl) (Some txt) category user_id
                  = (res_json (Topic_created
                       \<lparr>t_id = topics_seq s, title = ttl, t_content = txt,
                        t_user_id = Some 1, category_id = cat, views = 0,
                        is_pinned = False, is_locked = False,
                        t_created_at = clock s, t_updated_at = clock s\<rparr>),
                     s\<lparr>topics_seq := topics_seq s + 1,
                       topics := topics s @
                         [\<lparr>t_id = topics_seq s, title = ttl, t_content = txt,
                           t_user_id = Some 1, category_id = cat, views = 0,
                           is_pinned = False, is_locked = False,
                           t_created_at = clock s, t_updated_at = clock s\<rparr>]\<rparr>))
          \<and> (\<forall>txt tid par.
              CHR 0x00 \<notin> set txt
              \<and> pg_int e topic = Inr tid \<and> references tid (map t_id (topics s))
              \<and> pg_int e parent = Inr par \<and> references par (map p_id (posts s))
              \<and> posts_seq s \<le> 2147483647 \<longrightarrow>
                fst (create_post e s (Some txt) topic user_id parent)
                  = res_json (Post_created
                      \<lparr>p_id = posts_seq s, p_content = txt, topic_id = tid,
                       p_user_id = Some 1, parent_id = par, likes_count = 0,
                       p_created_at = clock s, p_updated_at = clock s\<rparr>)
                \<and> posts (snd (create_post e s (Some txt) topic user_id parent))
                  = posts s @
                      [\<lparr>p_id = posts_seq s, p_content = txt, topic_id = tid,
                        p_user_id = Some 1, parent_id = par, likes_count = 0,
                        p_created_at = clock s, p_updated_at = clock s\<rparr>])
          \<and> (\<forall>pid. int4_in e post_id = Inr pid \<and> pid \<in> set (map p_id (posts s))
                    \<and> \<not> liked s 1 pid \<and> likes_seq s \<le> 2147483647 \<longrightarrow>
                fst (toggle_like e s user_id post_id) = res_json (Liked True)
                \<and> likes (snd (toggle_like e s user_id post_id))
                    = likes s @ [\<lparr>l_id = likes_seq s, l_user_id = Some 1,
                                   l_post_id = Some pid, l_created_at = clock s\<rparr>])
          \<and> (\<forall>pid. int4_in e post_id = Inr pid \<and> liked s 1 pid \<longrightarrow>
                fst (toggle_like e s user_id post_id) = res_json (Liked False)
                \<and> likes (snd (toggle_like e s user_id post_id))
                    = filter (\<lambda>l. \<not> (l_user_id l = Some 1 \<and> l_post_id l = Some pid))
                        (likes s)))
     \<and> (\<forall>now rs. length (bcrypt_hash e ''admin123'') \<le> 255
                   \<and> CHR 0x00 \<notin> set (bcrypt_hash e ''admin123'')
                   \<and> s = snd (serve e (initDB e (fresh now)) rs)
            \<longrightarrow> consistent s \<and> bounded s \<and> admin_is_user_1 s)"
proof -
  from assms have same: "js_or user_id (JNum 1) = js_or (JNum 1) (JNum 1)"
    by (simp add: js_or_def)
  have topic: "create_topic e s ti co category user_id = create_topic e s ti co category (JNum 1)"
    for ti co
    unfolding create_topic_def same by (rule refl)
  have post: "create_post e s co topic user_id parent = create_post e s co topic (JNum 1) parent"
    for co
    unfolding create_post_def same by (rule refl)
  have like: "toggle_like e s user_id post_id = toggle_like e s (JNum 1) post_id"
    unfolding toggle_like_def same by (rule refl)
  have admin: "consistent s \<and> bounded s \<and> admin_is_user_1 s"
    if "length (bcrypt_hash e ''admin123'') \<le> 255
        \<and> CHR 0x00 \<notin> set (bcrypt_hash e ''admin123'')
        \<and> s = snd (serve e (initDB e (fresh now)) rs)" for now rs
  proof -
    from that have s: "s = snd (serve e (initDB e (fresh now)) rs)" by simp
    from that have "admin_is_user_1 s"
      unfolding s by (intro admin_serve admin_initDB_fresh) simp_all
    with kept_reachable [of e now rs] show ?thesis
      by (simp add: s)
  qed
  have stores: ?thesis if ok: "consistent s" "bounded s" "admin_is_user_1 s"
  proof -
    from ok(3) have one: "1 \<in> set (map u_id (users s))"
      by (rule admin_exists)
    note t = create_topic_stores [OF ok(2) one, where e = e and category = category]
    note p = create_post_stores [OF ok(2) one, where e = e and topic = topic and parent = parent]
    note l = toggle_like_user_1 [OF ok(1,2) one, where e = e and post_id = post_id]
    show ?thesis
      unfolding topic post like
      using t p l ok by blast
  qed
  show ?thesis
  proof (cases "consistent s \<and> bounded s \<and> admin_is_user_1 s")
    case True
    then show ?thesis using stores by blast
  next
    case False
    with admin show ?thesis
      unfolding topic post like by blast
  qed
qed

theorem falsy_user_id_is_user_1_witness:
  "\<not> truthy JUndefined
   \<and> consistent example_store \<and> bounded example_store \<and> admin_is_user_1 example_store
   \<and> create_topic example_env example_store (Some ''Second'') (Some ''Text'') JNull JUndefined
       = (res_json (Topic_created
            \<lparr>t_id = 2, title = ''Second'', t_content = ''Text'', t_user_id = Some 1,
             category_id = None, views = 0, is_pinned = False, is_locked = False,
             t_created_at = 4, t_updated_at = 4\<rparr>),
          example_store
            \<lparr>topics_seq := 3,
             topics := topics example_store @
               [\<lparr>t_id = 2, title = ''Second'', t_content = ''Text'', t_user_id = Some 1,
                 category_id = None, views = 0, is_pinned = False, is_locked = False,
                 t_created_at = 4, t_updated_at = 4\<rparr>]\<rparr>)
   \<and> fst (create_post example_env example_store (Some ''Text'') (JNum 1) JUndefined
            JUndefined)
       = res_json (Post_created
           \<lparr>p_id = 2, p_content = ''Text'', topic_id = Some 1, p_user_id = Some 1,
            parent_id = None, likes_count = 0, p_created_at = 4, p_updated_at = 4\<rparr>)
   \<and> map (\<lambda>p. (p_id p, p_user_id p))
        (posts (snd (create_post example_env example_store (Some ''Text'') (JNum 1)
                       JUndefined JUndefined)))
       = [(1, Some 1), (2, Some 1)]
   \<and> fst (toggle_like example_env example_store JUndefined ''1'') = res_json (Liked True)
   \<and> map (\<lambda>l. (l_user_id l, l_post_id l))
        (likes (snd (toggle_like example_env example_store JUndefined ''1'')))
       = [(Some 2, Some 1), (Some 1, Some 1)]"
proof -
  have falsy: "\<not> truthy JUndefined" by simp
  have one: "int4_in example_env ''1'' = Inr 1"
    by (simp add: int4_in_def in_int4_def example_defs)
  have fits: "length (bcrypt_hash example_env ''admin123'') \<le> 255
      \<and> CHR 0x00 \<notin> set (bcrypt_hash example_env ''admin123'')
      \<and> example_store = snd (serve example_env (initDB example_env (fresh 0)) example_requests)"
    by (simp add: example_reached) (simp add: example_defs)
  note inst = falsy_user_id_is_user_1 [where user_id = JUndefined and e = example_env
      and s = example_store and category = JNull and topic = "JNum 1" and parent = JUndefined
      and post_id = "''1''", OF falsy]
  from inst [THEN conjunct2, THEN conjunct2, THEN conjunct2, THEN conjunct2, rule_format,
      OF fits]
  have kept: "consistent example_store \<and> bounded example_store \<and> admin_is_user_1 example_store" .
  note stores = inst [THEN conjunct2, THEN conjunct2, THEN conjunct2, THEN conjunct1,
      rule_format, OF kept]
  have "CHR 0x00 \<notin> set ''Second'' \<and> CHR 0x00 \<notin> set ''Text'' \<and> length ''Second'' \<le> 200
      \<and> pg_int example_env JNull = Inr None
      \<and> references None (map c_id (categories example_store))
      \<and> topics_seq example_store \<le> 2147483647"
    by (simp add: references_def example_store_def)
  from stores [THEN conjunct1, rule_format, OF this]
  have topic: "create_topic example_env example_store (Some ''Second'') (Some ''Text'') JNull
        JUndefined
       = (res_json (Topic_created
            \<lparr>t_id = 2, title = ''Second'', t_content = ''Text'', t_user_id = Some 1,
             category_id = None, views = 0, is_pinned = False, is_locked = False,
             t_created_at = 4, t_updated_at = 4\<rparr>),
          example_store
            \<lparr>topics_seq := 3,
             topics := topics example_store @
               [\<lparr>t_id = 2, title = ''Second'', t_content = ''Text'', t_user_id = Some 1,
                 category_id = None, views = 0, is_pinned = False, is_locked = False,
                 t_created_at = 4, t_updated_at = 4\<rparr>]\<rparr>)"
    by (simp add: example_store_def)
  have "CHR 0x00 \<notin> set ''Text''
      \<and> pg_int example_env (JNum 1) = Inr (Some 1)
      \<and> references (Some 1) (map t_id (topics example_store))
      \<and> pg_int example_env JUndefined = Inr None
      \<and> references None (map p_id (posts example_store))
      \<and> posts_seq example_store \<le> 2147483647"
    by (simp add: references_def in_int4_def example_store_def)
  from stores [THEN conjunct2, THEN conjunct1, rule_format, OF this]
  have post: "fst (create_post example_env example_store (Some ''Text'') (JNum 1) JUndefined
            JUndefined)
       = res_json (Post_created
           \<lparr>p_id = 2, p_content = ''Text'', topic_id = Some 1, p_user_id = Some 1,
            parent_id = None, likes_count = 0, p_created_at = 4, p_updated_at = 4\<rparr>)"
    "map (\<lambda>p. (p_id p, p_user_id p))
        (posts (snd (create_post example_env example_store (Some ''Text'') (JNum 1)
                       JUndefined JUndefined)))
       = [(1, Some 1), (2, Some 1)]"
    by (simp_all add: example_store_def)
  have "int4_in example_env ''1'' = Inr 1 \<and> 1 \<in> set (map p_id (posts example_store))
      \<and> \<not> liked example_store 1 1 \<and> likes_seq example_store \<le> 2147483647"
    by (simp add: one liked_def example_store_def)
  from stores [THEN conjunct2, THEN conjunct2, THEN conjunct1, rule_format, OF this]
  have like: "fst (toggle_like example_env example_store JUndefined ''1'') = res_json (Liked True)"
    "map (\<lambda>l. (l_user_id l, l_post_id l))
        (likes (snd (toggle_like example_env example_store JUndefined ''1'')))
       = [(Some 2, Some 1), (Some 1, Some 1)]"
    by (simp_all add: example_store_def)
  from falsy kept topic post like show ?thesis
    by (simp only: simp_thms)
qed

section \<open>Fetching a topic\<close>

lemma find_filter:
  "find P xs = (case filter P xs of [] \<Rightarrow> None | y # ys \<Rightarrow> Some y)"
  by (induction xs) auto

lemma category_of_hd:
  "\<exists>cs. category_of s t = find (\<lambda>c. category_id t = Some (c_id c)) (categories s) # cs"
  by (simp add: category_of_def find_filter split: list.splits)

lemma topic_details_hd:
  assumes "filter (\<lambda>r. t_id r = i) (topics s) = [t]" "author_of s t = v # vs"
  shows "\<exists>ds. topic_details s i
     = \<lparr>td_topic = t, td_username = username v, td_avatar_url = avatar_url v,
        td_user_bio = bio v,
        td_category_name
          = map_option c_name (find (\<lambda>c. category_id t = Some (c_id c)) (categories s)),
        td_category_color
          = Option.bind (find (\<lambda>c. category_id t = Some (c_id c)) (categories s)) color\<rparr>
       # ds"
proof -
  obtain cs where cat: "category_of s t
      = find (\<lambda>c. category_id t = Some (c_id c)) (categories s) # cs"
    using category_of_hd by blast
  show ?thesis
    by (simp add: topic_details_def assms cat)
qed

lemma topic_details_missing:
  "i \<notin> set (map t_id (topics s)) \<Longrightarrow> topic_details s i = []"
proof -
  assume "i \<notin> set (map t_id (topics s))"
  then have "filter (\<lambda>t. t_id t = i) (topics s) = []"
    by (auto simp: filter_empty_conv)
  then show ?thesis by (simp add: topic_details_def)
qed

lemma bump_views_missing:
  "i \<notin> set (map t_id (topics s)) \<Longrightarrow> bump_views i s = Inr s"
proof -
  assume "i \<notin> set (map t_id (topics s))"
  then have none: "\<forall>t\<in>set (topics s). \<not> t_id t = i"
    by auto
  then have "update_rows (\<lambda>t. t_id t = i) (\<lambda>t. t\<lparr>views := views t + 1\<rparr>) (topics s) = topics s"
    by (rule update_rows_none)
  with none show ?thesis by (simp add: bump_views_def)
qed

lemma enriched_same_tables:
  "users s1 = users s \<Longrightarrow> categories s1 = categories s \<Longrightarrow> enriched s1 t d = enriched s t d"
  by (simp add: enriched_def)

lemma filter_update_rows:
  assumes "\<And>x. P (f x) = P x"
  shows "filter P (update_rows P f xs) = map f (filter P xs)"
  using assms by (induction xs) (simp_all add: update_rows_def)

text \<open>The \<^verbatim>\<open>UPDATE\<close> of an existing topic whose counter is not at its end.\<close>

lemma bump_views_found:
  assumes "consistent s" "t \<in> set (topics s)" "t_id t = i" "in_int4 (views t + 1)"
  shows "bump_views i s
     = Inr (s\<lparr>topics := update_rows (\<lambda>t. t_id t = i) (\<lambda>t. t\<lparr>views := views t + 1\<rparr>)
                            (topics s)\<rparr>)"
proof -
  from assms(1) have d: "distinct (map t_id (topics s))"
    by (simp add: consistent_def topics_ok_def)
  have "r = t" if "r \<in> set (topics s)" "t_id r = i" for r
    using distinct_map_same [OF d that(1) assms(2)] that(2) assms(3) by simp
  with assms(4) have "\<not> (\<exists>r\<in>set (topics s). t_id r = i \<and> \<not> in_int4 (views r + 1))"
    by blast
  then show ?thesis
    by (simp add: bump_views_def)
qed

text \<open>One fetch of a topic that exists.\<close>

lemma get_topic_found:
  assumes "consistent s" "int4_in e ident = Inr i" "t \<in> set (topics s)" "t_id t = i"
    and "in_int4 (views t + 1)"
  shows "\<exists>d. get_topic e s ident
              = (res_json (Topic_detail d),
                 s\<lparr>topics := update_rows (\<lambda>t. t_id t = i) (\<lambda>t. t\<lparr>views := views t + 1\<rparr>)
                                (topics s)\<rparr>)
            \<and> enriched s (t\<lparr>views := views t + 1\<rparr>) d"
proof -
  let ?s1 = "s\<lparr>topics := update_rows (\<lambda>t. t_id t = i) (\<lambda>t. t\<lparr>views := views t + 1\<rparr>)
                            (topics s)\<rparr>"
  let ?t1 = "t\<lparr>views := views t + 1\<rparr>"
  let ?P = "\<lambda>c. category_id t = Some (c_id c)"
  from assms(1) have ok: "topics_ok s" by (simp add: consistent_def)
  then have d: "distinct (map t_id (topics s))" by (simp add: topics_ok_def)
  from d assms(3) have "filter (\<lambda>r. t_id r = t_id t) (topics s) = [t]"
    by (rule filter_distinct_single)
  then have one: "filter (\<lambda>r. t_id r = i) (topics ?s1) = [?t1]"
    by (simp add: filter_update_rows assms(4))
  from ok assms(3) obtain u where u: "u \<in> set (users s)" "t_user_id t = Some (u_id u)"
    by (auto simp: topics_ok_def)
  then have "author_of ?s1 ?t1 \<noteq> []"
    by (auto simp: author_of_def filter_empty_conv)
  then obtain v vs where author: "author_of ?s1 ?t1 = v # vs"
    by (cases "author_of ?s1 ?t1") auto
  then have "v \<in> set (author_of ?s1 ?t1)" by simp
  then have v: "v \<in> set (users s)" "t_user_id t = Some (u_id v)"
    by (simp_all add: author_of_def)
  define d where "d = \<lparr>td_topic = ?t1, td_username = username v, td_avatar_url = avatar_url v,
        td_user_bio = bio v,
        td_category_name = map_option c_name (find ?P (categories s)),
        td_category_color = Option.bind (find ?P (categories s)) color\<rparr>"
  from topic_details_hd [OF one author] obtain ds where "topic_details ?s1 i = d # ds"
    by (auto simp: d_def)
  with assms(2) bump_views_found [OF assms(1,3,4,5)]
  have "get_topic e s ident = (res_json (Topic_detail d), ?s1)"
    by (simp add: get_topic_def)
  moreover have "enriched s ?t1 d"
    unfolding enriched_def using v by (auto simp: d_def)
  ultimately show ?thesis by blast
qed

text \<open>One fetch of a topic whose counter is at its end.\<close>

lemma get_topic_overflow:
  assumes "int4_in e ident = Inr i" "t \<in> set (topics s)" "t_id t = i" "views t = 2147483647"
  shows "get_topic e s ident
     = (res_status_json 500 (Error_thrown (Pg Numeric_value_out_of_range)), s)"
proof -
  from assms(2-4) have "\<exists>r\<in>set (topics s). t_id r = i \<and> \<not> in_int4 (views r + 1)"
    by (auto simp: in_int4_def)
  then have "bump_views i s = Inl Numeric_value_out_of_range"
    by (simp add: bump_views_def)
  with assms(1) show ?thesis
    by (simp add: get_topic_def)
qed

lemma views_add_compose:
  "map (\<lambda>r. if t_id r = i then r\<lparr>views := views r + n\<rparr> else r)
     (map (\<lambda>r. if t_id r = i then r\<lparr>views := views r + 1\<rparr> else r) ts)
   = map (\<lambda>r. if t_id r = i then r\<lparr>views := views r + (n + 1)\<rparr> else r) ts"
  by (induction ts) (auto simp: algebra_simps)

lemma views_add_zero:
  "map (\<lambda>r. if t_id r = i then r\<lparr>views := views r + 0\<rparr> else r) ts = ts"
  by (induction ts) auto

lemma serve_get_topic_Cons:
  assumes "get_topic e (tick dt s) ident = (res, s0)"
    and "serve e s0 (map (\<lambda>dt. (dt, Get_topic ident)) dts) = (ress, s1)"
  shows "serve e s (map (\<lambda>dt. (dt, Get_topic ident)) (dt # dts)) = (res # ress, s1)"
  using assms by simp

text \<open>Fetching an existing topic again and again.\<close>

lemma get_topic_repeated:
  assumes "consistent s" "bounded s" "int4_in e ident = Inr i" "t \<in> set (topics s)" "t_id t = i"
    and "views t + int (length dts) \<le> 2147483647"
    and "serve e s (map (\<lambda>dt. (dt, Get_topic ident)) dts) = (ress, s1)"
  shows "mset (topics s1)
           = mset (map (\<lambda>r. if t_id r = i then r\<lparr>views := views r + int (length dts)\<rparr> else r)
                    (topics s))
         \<and> users s1 = users s \<and> categories s1 = categories s
         \<and> length ress = length dts
         \<and> (\<forall>k<length dts. \<exists>d. ress ! k = res_json (Topic_detail d)
                \<and> enriched s (t\<lparr>views := views t + int k + 1\<rparr>) d)"
  using assms
proof (induction dts arbitrary: s t ress s1)
  case Nil
  then show ?case by (simp add: views_add_zero cong: if_cong)
next
  case (Cons dt dts)
  let ?s0 = "tick dt s"
  let ?s' = "?s0\<lparr>topics := update_rows (\<lambda>t. t_id t = i) (\<lambda>t. t\<lparr>views := views t + 1\<rparr>)
                              (topics ?s0)\<rparr>"
  let ?t1 = "t\<lparr>views := views t + 1\<rparr>"
  let ?bump = "\<lambda>n r. if t_id r = i then r\<lparr>views := views r + n\<rparr> else r"
  have ok0: "consistent ?s0" "bounded ?s0"
    using Cons.prems(1,2) by (simp_all add: consistent_tick bounded_tick)
  have t0: "t \<in> set (topics ?s0)"
    using Cons.prems(4) by (simp add: tick_def)
  from Cons.prems(2,4) have "0 \<le> views t"
    by (simp add: bounded_def)
  with Cons.prems(6) have range: "in_int4 (views t + 1)"
    by (simp add: in_int4_def)
  from get_topic_found [OF ok0(1) Cons.prems(3) t0 Cons.prems(5) range]
  obtain d0 where d0: "get_topic e ?s0 ident = (res_json (Topic_detail d0), ?s')"
    "enriched ?s0 ?t1 d0"
    by blast
  obtain ress' s1' where rest: "serve e ?s' (map (\<lambda>dt. (dt, Get_topic ident)) dts) = (ress', s1')"
    by (cases "serve e ?s' (map (\<lambda>dt. (dt, Get_topic ident)) dts)")
  from serve_get_topic_Cons [OF d0(1) rest] Cons.prems(7)
  have ress: "ress = res_json (Topic_detail d0) # ress'" and s1: "s1 = s1'"
    by simp_all
  from bump_views_found [OF ok0(1) t0 Cons.prems(5) range]
  have bumped: "bump_views i ?s0 = Inr ?s'" .
  have ok': "consistent ?s'" "bounded ?s'"
    using consistent_bump_views [OF ok0(1) bumped] bounded_bump_views [OF ok0(2) bumped]
    by simp_all
  have t1: "?t1 \<in> set (topics ?s')"
    using t0 Cons.prems(5) by (force simp: set_update_rows)
  have id1: "t_id ?t1 = i"
    using Cons.prems(5) by simp
  have more: "views ?t1 + int (length dts) \<le> 2147483647"
    using Cons.prems(6) by simp
  note IH = Cons.IH [OF ok' Cons.prems(3) t1 id1 more rest]
  have tables': "users ?s' = users s" "categories ?s' = categories s"
    by (simp_all add: tick_def)
  have "mset (topics ?s') = mset (map (?bump 1) (topics s))"
    by (simp add: mset_update_rows tick_def)
  then have step: "mset (map (?bump (int (length dts))) (topics ?s'))
      = mset (map (?bump (int (length dts))) (map (?bump 1) (topics s)))"
    by (simp only: mset_map)
  have topics: "mset (topics s1) = mset (map (?bump (int (length (dt # dts)))) (topics s))"
  proof -
    from IH have "mset (topics s1) = mset (map (?bump (int (length dts))) (topics ?s'))"
      unfolding s1 by (rule conjunct1)
    also have "\<dots> = mset (map (?bump (int (length dts))) (map (?bump 1) (topics s)))"
      by (rule step)
    also have "\<dots> = mset (map (?bump (int (length dts) + 1)) (topics s))"
      by (simp only: views_add_compose)
    also have "int (length dts) + 1 = int (length (dt # dts))"
      by simp
    finally show ?thesis .
  qed
  have others: "users s1 = users s" "categories s1 = categories s"
    "length ress = length (dt # dts)"
    using IH by (simp_all add: s1 ress tables')
  have each: "\<exists>d. ress ! k = res_json (Topic_detail d)
      \<and> enriched s (t\<lparr>views := views t + int k + 1\<rparr>) d" if "k < length (dt # dts)" for k
  proof (cases k)
    case 0
    have same0: "users ?s0 = users s" "categories ?s0 = categories s"
      by (simp_all add: tick_def)
    from d0(2) have "enriched s ?t1 d0"
      by (simp only: enriched_same_tables [OF same0])
    with 0 show ?thesis by (auto simp: ress)
  next
    case (Suc j)
    with that have "j < length dts" by simp
    with IH obtain d where d: "ress' ! j = res_json (Topic_detail d)"
      "enriched ?s' (?t1\<lparr>views := views ?t1 + int j + 1\<rparr>) d"
      by blast
    from d(2) have "enriched s (?t1\<lparr>views := views ?t1 + int j + 1\<rparr>) d"
      by (simp only: enriched_same_tables [OF tables'(1,2)])
    moreover have "?t1\<lparr>views := views ?t1 + int j + 1\<rparr> = t\<lparr>views := views t + int k + 1\<rparr>"
      by (simp add: Suc)
    ultimately show ?thesis
      using d(1) by (auto simp: ress Suc)
  qed
  from topics others each show ?case by blast
qed

text \<open>
  C6, as the code has it.  Take a database that the constraints hold in.  A path
  parameter that PostgreSQL does not read as a 32-bit integer is answered with status
  500 and the error.  If it reads as the integer \<open>i\<close> and \<open>i\<close> is the id of no topic,
  the fetch is answered with status 404 and \<^verbatim>\<open>Topic not found\<close>; in both cases the
  database is as before.  If \<open>i\<close> is the id of a topic whose view counter is \<open>v\<close>,
  fetching it \<open>n\<close> times, one request after the other, with \<open>v + n \<le> 2\<^sup>3\<^sup>1 - 1\<close>, adds
  exactly \<open>n\<close> to the counter and leaves the columns of every other topic as they were;
  each fetch is answered with status 200 and the topic's row, its counter already
  incremented, with the author's and the category's columns.  At \<open>v = 2\<^sup>3\<^sup>1 - 1\<close> the
  \<^verbatim>\<open>UPDATE\<close> fails: the fetch is answered with status 500 and the counter stays.
\<close>

theorem get_topic_counts_every_view:
  assumes "consistent s" "bounded s"
  shows "(\<forall>err. int4_in e ident = Inl err \<longrightarrow>
            get_topic e s ident = (res_status_json 500 (Error_thrown (Pg err)), s))
     \<and> (\<forall>i. int4_in e ident = Inr i \<longrightarrow>
           (i \<notin> set (map t_id (topics s)) \<longrightarrow>
              get_topic e s ident
                = (res_status_json 404 (Error_message ''Topic not found''), s))
           \<and> (\<forall>t. t \<in> set (topics s) \<and> t_id t = i \<and> views t = 2147483647 \<longrightarrow>
                get_topic e s ident
                  = (res_status_json 500 (Error_thrown (Pg Numeric_value_out_of_range)), s))
           \<and> (\<forall>t dts ress s1.
                t \<in> set (topics s) \<and> t_id t = i
                \<and> views t + int (length dts) \<le> 2147483647
                \<and> serve e s (map (\<lambda>dt. (dt, Get_topic ident)) dts) = (ress, s1) \<longrightarrow>
                  mset (topics s1)
                    = mset (map (\<lambda>r. if t_id r = i
                                      then r\<lparr>views := views r + int (length dts)\<rparr> else r)
                              (topics s))
                  \<and> length ress = length dts
                  \<and> (\<forall>k<length dts. \<exists>d. ress ! k = res_json (Topic_detail d)
                         \<and> enriched s (t\<lparr>views := views t + int k + 1\<rparr>) d)))"
proof -
  have refused: "get_topic e s ident = (res_status_json 500 (Error_thrown (Pg err)), s)"
    if "int4_in e ident = Inl err" for err
    using that by (simp add: get_topic_def)
  have missing: "get_topic e s ident
      = (res_status_json 404 (Error_message ''Topic not found''), s)"
    if "int4_in e ident = Inr i" "i \<notin> set (map t_id (topics s))" for i
  proof -
    from that(2) have "bump_views i s = Inr s" "topic_details s i = []"
      by (rule bump_views_missing, rule topic_details_missing)
    with that(1) show ?thesis
      by (simp add: get_topic_def)
  qed
  have full: "get_topic e s ident
      = (res_status_json 500 (Error_thrown (Pg Numeric_value_out_of_range)), s)"
    if "int4_in e ident = Inr i" "t \<in> set (topics s) \<and> t_id t = i \<and> views t = 2147483647"
    for i t
    using that by (intro get_topic_overflow [of e ident i t]) simp_all
  have found: "mset (topics s1)
        = mset (map (\<lambda>r. if t_id r = i then r\<lparr>views := views r + int (length dts)\<rparr> else r)
                  (topics s))
      \<and> length ress = length dts
      \<and> (\<forall>k<length dts. \<exists>d. ress ! k = res_json (Topic_detail d)
             \<and> enriched s (t\<lparr>views := views t + int k + 1\<rparr>) d)"
    if "int4_in e ident = Inr i"
      and "t \<in> set (topics s) \<and> t_id t = i \<and> views t + int (length dts) \<le> 2147483647
        \<and> serve e s (map (\<lambda>dt. (dt, Get_topic ident)) dts) = (ress, s1)"
    for i t dts ress s1
  proof -
    from that(2) have t: "t \<in> set (topics s)" "t_id t = i"
      and room: "views t + int (length dts) \<le> 2147483647"
      and run: "serve e s (map (\<lambda>dt. (dt, Get_topic ident)) dts) = (ress, s1)"
      by simp_all
    from get_topic_repeated [OF assms that(1) t room run] show ?thesis
      by blast
  qed
  from refused missing full found show ?thesis
    by blast
qed

theorem get_topic_counts_every_view_witness:
  "consistent example_store \<and> bounded example_store
   \<and> int4_in example_env ''1'' = Inr 1
   \<and> map (\<lambda>t. (t_id t, views t)) (topics example_store) = [(1, 0)]
   \<and> mset (map (\<lambda>t. (t_id t, views t))
        (topics (snd (serve example_env example_store
                        (map (\<lambda>dt. (dt, Get_topic ''1'')) [1, 1, 1]))))) = {#(1, 3)#}
   \<and> length (fst (serve example_env example_store
                     (map (\<lambda>dt. (dt, Get_topic ''1'')) [1, 1, 1]))) = 3
   \<and> status (fst (serve example_env example_store
                     (map (\<lambda>dt. (dt, Get_topic ''1'')) [1, 1, 1])) ! 2) = 200
   \<and> int4_in example_env ''5'' = Inr 5
   \<and> get_topic example_env example_store ''5''
       = (res_status_json 404 (Error_message ''Topic not found''), example_store)
   \<and> int4_in example_env ''five'' = Inl Invalid_text_representation
   \<and> get_topic example_env example_store ''five''
       = (res_status_json 500 (Error_thrown (Pg Invalid_text_representation)), example_store)"
proof -
  let ?run = "serve example_env example_store (map (\<lambda>dt. (dt, Get_topic ''1'')) [1, 1, 1])"
  let ?t = "hd (topics example_store)"
  have one: "int4_in example_env ''1'' = Inr 1" and five: "int4_in example_env ''5'' = Inr 5"
    and word: "int4_in example_env ''five'' = Inl Invalid_text_representation"
    by (simp_all add: int4_in_def in_int4_def example_defs)
  have t: "?t \<in> set (topics example_store) \<and> t_id ?t = 1
      \<and> views ?t + int (length [1, 1, 1 :: nat]) \<le> 2147483647
      \<and> ?run = (fst ?run, snd ?run)"
    and before: "map (\<lambda>t. (t_id t, views t)) (topics example_store) = [(1, 0)]"
    and missing: "5 \<notin> set (map t_id (topics example_store))"
    by (simp_all add: example_store_def)
  note inst = get_topic_counts_every_view [OF example_consistent example_bounded,
      of example_env]
  from inst [of "''1''", THEN conjunct2, rule_format, OF one, THEN conjunct2, THEN conjunct2,
      rule_format, OF t]
  have found: "mset (topics (snd ?run))
        = mset (map (\<lambda>r. if t_id r = 1 then r\<lparr>views := views r + int (length [1, 1, 1 :: nat])\<rparr>
                    else r) (topics example_store))"
      "length (fst ?run) = length [1, 1, 1 :: nat]"
      "\<forall>k<length [1, 1, 1 :: nat]. \<exists>d. fst ?run ! k = res_json (Topic_detail d)
           \<and> enriched example_store (?t\<lparr>views := views ?t + int k + 1\<rparr>) d"
    by blast+
  have "2 < length [1, 1, 1 :: nat]"
    by simp
  with found(3) obtain d where "fst ?run ! 2 = res_json (Topic_detail d)"
    by blast
  then have third: "status (fst ?run ! 2) = 200"
    by (simp add: res_json_def)
  have "mset (map (\<lambda>t. (t_id t, views t)) (topics (snd ?run)))
      = image_mset (\<lambda>t. (t_id t, views t)) (mset (topics (snd ?run)))"
    by simp
  also have "\<dots> = {#(1, 3)#}"
    unfolding found(1) by (simp add: example_store_def)
  finally have after: "mset (map (\<lambda>t. (t_id t, views t)) (topics (snd ?run))) = {#(1, 3)#}" .
  from inst [of "''5''", THEN conjunct2, rule_format, OF five, THEN conjunct1, rule_format,
      OF missing]
  have none: "get_topic example_env example_store ''5''
       = (res_status_json 404 (Error_message ''Topic not found''), example_store)" .
  from inst [of "''five''", THEN conjunct1, rule_format, OF word]
  have bad: "get_topic example_env example_store ''five''
       = (res_status_json 500 (Error_thrown (Pg Invalid_text_representation)), example_store)" .
  from found(2) have three: "length (fst ?run) = 3"
    by simp
  from example_consistent example_bounded one five word before after three third none bad
  show ?thesis
    by (simp only: simp_thms)
qed

text \<open>
  In \<open>viewed_store\<close> the counter of topic 1 is \<open>2\<^sup>3\<^sup>1 - 1\<close>: one more fetch is answered
  with status 500 and adds nothing.  And \<^verbatim>\<open>2147483648\<close> is the id of no topic of the
  example database, yet the fetch is answered with status 500 and not 404.
\<close>

theorem get_topic_counter_at_end:
  "consistent viewed_store \<and> bounded viewed_store
   \<and> map (\<lambda>t. (t_id t, views t)) (topics viewed_store) = [(1, 2147483647)]
   \<and> get_topic example_env viewed_store ''1''
       = (res_status_json 500 (Error_thrown (Pg Numeric_value_out_of_range)), viewed_store)
   \<and> 2147483648 \<notin> set (map t_id (topics example_store))
   \<and> get_topic example_env example_store ''2147483648''
       = (res_status_json 500 (Error_thrown (Pg Numeric_value_out_of_range)), example_store)"
proof -
  have "consistent viewed_store" "bounded viewed_store"
    by (simp_all add: inv_defs bounded_def like_key_def viewed_store_def example_store_def)
  moreover have "map (\<lambda>t. (t_id t, views t)) (topics viewed_store) = [(1, 2147483647)]"
    "2147483648 \<notin> set (map t_id (topics example_store))"
    by (simp_all add: viewed_store_def example_store_def)
  moreover have "get_topic example_env viewed_store ''1''
       = (res_status_json 500 (Error_thrown (Pg Numeric_value_out_of_range)), viewed_store)"
    by (simp add: get_topic_def bump_views_def int4_in_def in_int4_def example_defs
          viewed_store_def example_store_def)
  moreover have "get_topic example_env example_store ''2147483648''
       = (res_status_json 500 (Error_thrown (Pg Numeric_value_out_of_range)), example_store)"
    by (simp add: get_topic_def int4_in_def in_int4_def example_defs)
  ultimately show ?thesis
    by (simp only: simp_thms)
qed

section \<open>Listing topics\<close>

lemma mset_insert_by: "mset (insert_by le x xs) = add_mset x (mset xs)"
  by (induction xs) simp_all

lemma mset_sort_by: "mset (sort_by le xs) = mset xs"
  by (induction xs) (simp_all add: sort_by_def mset_insert_by)

lemma set_insert_by: "set (insert_by le x xs) = insert x (set xs)"
  by (induction xs) auto

lemma sorted_insert_by:
  assumes total: "\<And>a b. le a b \<or> le b a"
    and trans: "\<And>a b c. le a b \<Longrightarrow> le b c \<Longrightarrow> le a c"
  shows "sorted_wrt le xs \<Longrightarrow> sorted_wrt le (insert_by le x xs)"
proof (induction xs)
  case Nil
  then show ?case by simp
next
  case (Cons y ys)
  show ?case
  proof (cases "le x y")
    case True
    from Cons.prems have "\<forall>z\<in>set ys. le y z"
      by simp
    with trans [OF True] have "\<forall>z\<in>set ys. le x z"
      by blast
    with True Cons.prems show ?thesis by simp
  next
    case False
    with total have "le y x" by blast
    moreover from Cons have "sorted_wrt le (insert_by le x ys)" "\<forall>z\<in>set ys. le y z"
      by simp_all
    ultimately show ?thesis
      using False by (simp add: set_insert_by)
  qed
qed

lemma sorted_sort_by:
  assumes "\<And>a b. le a b \<or> le b a"
    and "\<And>a b c. le a b \<Longrightarrow> le b c \<Longrightarrow> le a c"
  shows "sorted_wrt le (sort_by le xs)"
proof (induction xs)
  case Nil
  then show ?case by (simp add: sort_by_def)
next
  case (Cons x xs)
  have "sorted_wrt le (insert_by le x (sort_by le xs))"
    using assms(1) assms(2) Cons.IH by (rule sorted_insert_by)
  then show ?case by (simp add: sort_by_def)
qed

lemma pinned_then_newest_total: "pinned_then_newest a b \<or> pinned_then_newest b a"
  by (auto simp: pinned_then_newest_def)

lemma pinned_then_newest_trans:
  "pinned_then_newest a b \<Longrightarrow> pinned_then_newest b c \<Longrightarrow> pinned_then_newest a c"
  by (auto simp: pinned_then_newest_def)

text \<open>Every topic joins with one author and one category or none, so it is one row.\<close>

lemma author_of_single:
  assumes "users_ok s" "topics_ok s" "t \<in> set (topics s)"
  shows "\<exists>u. author_of s t = [u]"
proof -
  from assms(2,3) obtain u where u: "u \<in> set (users s)" "t_user_id t = Some (u_id u)"
    by (auto simp: topics_ok_def)
  from assms(1) have "distinct (map u_id (users s))"
    by (simp add: users_ok_def)
  from filter_distinct_single [OF this u(1)] have "filter (\<lambda>y. u_id y = u_id u) (users s) = [u]" .
  moreover have "filter (\<lambda>v. t_user_id t = Some (u_id v)) (users s)
      = filter (\<lambda>y. u_id y = u_id u) (users s)"
    by (rule filter_cong) (auto simp: u(2))
  ultimately show ?thesis
    by (simp add: author_of_def)
qed

lemma category_of_single:
  assumes "categories_ok s"
  shows "\<exists>c. category_of s t = [c]"
proof (cases "category_id t")
  case None
  then show ?thesis by (simp add: category_of_def)
next
  case (Some i)
  from assms have "distinct (map c_id (categories s))"
    by (simp add: categories_ok_def)
  from filter_key_le_1 [OF this, of i]
  have "length (filter (\<lambda>c. c_id c = i) (categories s)) \<le> 1" .
  moreover have "filter (\<lambda>c. category_id t = Some (c_id c)) (categories s)
      = filter (\<lambda>c. c_id c = i) (categories s)"
    by (rule filter_cong) (auto simp: Some)
  ultimately have "length (filter (\<lambda>c. category_id t = Some (c_id c)) (categories s)) \<le> 1"
    by simp
  then show ?thesis
    by (cases "filter (\<lambda>c. category_id t = Some (c_id c)) (categories s)")
       (simp_all add: category_of_def)
qed

lemma map_concat_single:
  "(\<And>x. x \<in> set xs \<Longrightarrow> \<exists>r. F x = [r] \<and> g r = x) \<Longrightarrow> map g (concat (map F xs)) = xs"
proof (induction xs)
  case Nil
  then show ?case by simp
next
  case (Cons a xs)
  from Cons.prems [of a] obtain r where "F a = [r]" "g r = a" by auto
  moreover from Cons have "map g (concat (map F xs)) = xs" by simp
  ultimately show ?case by simp
qed

lemma topic_rows_topics:
  assumes "consistent s"
  shows "map tr_topic (topic_rows s wh) = filter wh (topics s)"
proof -
  from assms have ok: "users_ok s" "topics_ok s" "categories_ok s"
    by (simp_all add: consistent_def)
  let ?F = "\<lambda>t. concat (map (\<lambda>u.
         map (\<lambda>c. \<lparr>tr_topic = t, tr_username = username u, tr_avatar_url = avatar_url u,
                    tr_category_name = map_option c_name c,
                    tr_category_color = Option.bind c color,
                    tr_post_count = length (remdups (map p_id (posts_of s t))),
                    tr_last_post_at = max_created_at (posts_of s t)\<rparr>)
             (category_of s t))
         (author_of s t))"
  have "\<exists>r. ?F t = [r] \<and> tr_topic r = t" if "t \<in> set (filter wh (topics s))" for t
  proof -
    from that have "t \<in> set (topics s)" by simp
    from author_of_single [OF ok(1,2) this] obtain u where u: "author_of s t = [u]" ..
    from category_of_single [OF ok(3)] obtain c where c: "category_of s t = [c]" ..
    show ?thesis by (simp add: u c)
  qed
  then have "map tr_topic (concat (map ?F (filter wh (topics s)))) = filter wh (topics s)"
    by (rule map_concat_single)
  then show ?thesis
    by (simp add: topic_rows_def)
qed


text \<open>JavaScript's arithmetic is exact on whole numbers up to \<open>2\<^sup>5\<^sup>3\<close>.\<close>

lemma to_double_exact: "\<bar>x\<bar> \<le> 9007199254740992 \<Longrightarrow> to_double x = Some x"
proof -
  assume "\<bar>x\<bar> \<le> 9007199254740992"
  then have "nat \<bar>x\<bar> \<le> 9007199254740992"
    by simp
  then show ?thesis
    unfolding to_double_def Let_def by (rule if_P)
qed

lemma js_offset_exact:
  assumes "\<bar>p\<bar> \<le> 9007199254740992" "\<bar>p - 1\<bar> \<le> 9007199254740992"
    and "\<bar>l\<bar> \<le> 9007199254740992" "\<bar>(p - 1) * l\<bar> \<le> 9007199254740992"
  shows "js_offset p l = Some ((p - 1) * l)"
  using assms by (simp add: js_offset_def to_double_exact)

text \<open>
  C7, as the code has it.  In a database that the constraints hold in, let the
  category filter be absent (falsy) or a 32-bit integer, let \<open>p\<close> be the page (1 when
  absent) and \<open>l\<close> the limit (20 when absent), and let \<open>p\<close>, \<open>p - 1\<close>, \<open>l\<close> and
  \<open>(p - 1) * l\<close> be at most \<open>2\<^sup>5\<^sup>3\<close> in absolute value, so that JavaScript computes the
  offset exactly.  If the offset \<open>(p - 1) * l\<close> and the limit are not negative, the
  answer has status 200 and its rows are those from the offset on, at most \<open>l\<close> of
  them and as many as there are for any such \<open>l\<close>, of the list of all topics of the
  category (all topics without a filter), each once, pinned topics first and newer
  topics before older ones.  If the offset or the limit is negative, PostgreSQL refuses
  the query and the answer has status 500.  It also refuses a limit that is no 64-bit
  integer, whatever the page is.
\<close>

theorem list_topics_page:
  assumes "consistent s"
    and "\<not> truthy category \<or> pg_int e category = Inr (Some c)"
    and "p = (case page of None \<Rightarrow> 1 | Some n \<Rightarrow> n)"
    and "l = (case limit of None \<Rightarrow> 20 | Some n \<Rightarrow> n)"
  shows "(\<bar>p\<bar> \<le> 9007199254740992 \<and> \<bar>p - 1\<bar> \<le> 9007199254740992
          \<and> \<bar>l\<bar> \<le> 9007199254740992 \<and> \<bar>(p - 1) * l\<bar> \<le> 9007199254740992 \<longrightarrow>
           (0 \<le> (p - 1) * l \<and> 0 \<le> l \<longrightarrow>
              (\<exists>all. list_topics e s category page limit
                        = res_json (Topic_rows (take (nat l) (drop (nat ((p - 1) * l)) all)))
                 \<and> sorted_wrt (\<lambda>a b. pinned_then_newest (tr_topic a) (tr_topic b)) all
                 \<and> mset (map tr_topic all)
                     = mset (filter (\<lambda>t. truthy category \<longrightarrow> category_id t = Some c)
                              (topics s))
                 \<and> length (take (nat l) (drop (nat ((p - 1) * l)) all)) \<le> nat l))
           \<and> ((p - 1) * l < 0 \<or> l < 0 \<longrightarrow>
                 status (list_topics e s category page limit) = 500))
     \<and> (\<not> in_int8 l \<longrightarrow>
           list_topics e s category page limit
             = res_status_json 500 (Error_thrown (Pg Numeric_value_out_of_range)))"
proof -
  let ?wh = "\<lambda>t. truthy category \<longrightarrow> category_id t = Some c"
  let ?le = "\<lambda>a b. pinned_then_newest (tr_topic a) (tr_topic b)"
  let ?all = "sort_by ?le (topic_rows s ?wh)"
  from assms(2) have cat: "(if truthy category then pg_int e category else Inr None)
      = Inr (if truthy category then Some c else None)"
    by auto
  have wh: "(\<lambda>t. truthy category \<longrightarrow>
                (if truthy category then Some c else None) \<noteq> None
                \<and> category_id t = (if truthy category then Some c else None)) = ?wh"
    by auto
  have wide: "list_topics e s category page limit
      = res_status_json 500 (Error_thrown (Pg Numeric_value_out_of_range))"
    if "\<not> in_int8 l"
    using that unfolding list_topics_def Let_def cat assms(3,4) [symmetric]
    by simp
  have exact: ?thesis
    if small: "\<bar>p\<bar> \<le> 9007199254740992" "\<bar>p - 1\<bar> \<le> 9007199254740992"
      "\<bar>l\<bar> \<le> 9007199254740992" "\<bar>(p - 1) * l\<bar> \<le> 9007199254740992"
  proof -
    from small have offset: "js_offset p l = Some ((p - 1) * l)"
      by (rule js_offset_exact)
    have fits: "in_int8 l" "in_int8 ((p - 1) * l)"
      "\<not> 1000000000000000000000 \<le> \<bar>(p - 1) * l\<bar>"
      unfolding in_int8_def using small(3,4) by linarith+
    have page: "list_topics e s category page limit
        = res_json (Topic_rows (take (nat l) (drop (nat ((p - 1) * l)) ?all)))"
      if "0 \<le> (p - 1) * l" "0 \<le> l"
      using that fits unfolding list_topics_def Let_def cat assms(3,4) [symmetric] offset
      by (simp add: wh)
    have refused: "status (list_topics e s category page limit) = 500"
      if "(p - 1) * l < 0 \<or> l < 0"
      using that fits unfolding list_topics_def Let_def cat assms(3,4) [symmetric] offset
      by (auto simp: res_status_json_def)
    have sorted: "sorted_wrt ?le ?all"
    proof (rule sorted_sort_by)
      show "?le a b \<or> ?le b a" for a b :: topic_row
        by (rule pinned_then_newest_total)
      show "?le a b \<Longrightarrow> ?le b c \<Longrightarrow> ?le a c" for a b c :: topic_row
        by (rule pinned_then_newest_trans)
    qed
    have "mset (map tr_topic ?all) = image_mset tr_topic (mset (topic_rows s ?wh))"
      by (simp add: mset_sort_by)
    also have "\<dots> = mset (map tr_topic (topic_rows s ?wh))"
      by simp
    also have "\<dots> = mset (filter ?wh (topics s))"
      by (simp only: topic_rows_topics [OF assms(1)])
    finally have each_once: "mset (map tr_topic ?all) = mset (filter ?wh (topics s))" .
    have "length (take (nat l) (drop (nat ((p - 1) * l)) ?all)) \<le> nat l"
      by simp
    with page refused sorted each_once wide show ?thesis
      by blast
  qed
  from exact wide show ?thesis
    by blast
qed

theorem list_topics_page_witness:
  "consistent example_store
   \<and> pg_int example_env (JStr ''1'') = Inr (Some 1)
   \<and> map (\<lambda>r. (t_id (tr_topic r), tr_username r, tr_category_name r, tr_post_count r))
        (case body (list_topics example_env example_store (JStr ''1'') (Some 1) (Some 10)) of
           Topic_rows rows \<Rightarrow> rows | _ \<Rightarrow> [])
       = [(1, ''admin'', Some ''General Discussion'', 1)]
   \<and> status (list_topics example_env example_store (JStr ''1'') (Some 1) (Some 10)) = 200
   \<and> status (list_topics example_env example_store (JStr ''1'') (Some 0) (Some 10)) = 500
   \<and> status (list_topics example_env example_store (JStr ''1'') (Some 1)
               (Some 9223372036854775808)) = 500"
proof -
  have cat: "pg_int example_env (JStr ''1'') = Inr (Some 1)"
    by (simp add: int4_in_def in_int4_def example_defs)
  note inst = list_topics_page [OF example_consistent disjI2 [OF cat] refl refl]
  have "\<bar>1 :: int\<bar> \<le> 9007199254740992 \<and> \<bar>1 - 1 :: int\<bar> \<le> 9007199254740992
      \<and> \<bar>10 :: int\<bar> \<le> 9007199254740992 \<and> \<bar>(1 - 1) * 10 :: int\<bar> \<le> 9007199254740992"
    by simp
  from inst [of "Some 1" "Some 10", THEN conjunct1] this
  obtain rows where "list_topics example_env example_store (JStr ''1'') (Some 1) (Some 10)
      = res_json (Topic_rows rows)"
    by auto
  then have ok: "status (list_topics example_env example_store (JStr ''1'') (Some 1) (Some 10))
      = 200"
    by (simp add: res_json_def)
  from inst [of "Some 0" "Some 10", THEN conjunct1]
  have refused: "status (list_topics example_env example_store (JStr ''1'') (Some 0) (Some 10))
      = 500"
    by simp
  from inst [of "Some 1" "Some 9223372036854775808", THEN conjunct2]
  have wide: "status (list_topics example_env example_store (JStr ''1'') (Some 1)
               (Some 9223372036854775808)) = 500"
    by (simp add: in_int8_def res_status_json_def)
  have rows: "map (\<lambda>r. (t_id (tr_topic r), tr_username r, tr_category_name r, tr_post_count r))
        (case body (list_topics example_env example_store (JStr ''1'') (Some 1) (Some 10)) of
           Topic_rows rows \<Rightarrow> rows | _ \<Rightarrow> [])
       = [(1, ''admin'', Some ''General Discussion'', 1)]"
    by (simp add: list_topics_def topic_rows_def author_of_def category_of_def posts_of_def
          max_created_at_def sort_by_def res_json_def int4_in_def in_int4_def in_int8_def
          js_offset_def to_double_def example_defs example_store_def)
  from example_consistent cat rows ok refused wide show ?thesis
    by (simp only: simp_thms)
qed

text \<open>
  Page 0 makes the offset negative: the answer is status 500 and no rows.  And the
  limit \<open>2\<^sup>6\<^sup>3\<close> is refused on page 1.
\<close>

theorem list_topics_page_0:
  "list_topics example_env example_store JUndefined (Some 0) (Some 5)
     = \<lparr>status = 500, body = Error_thrown (Pg Invalid_row_count_in_offset)\<rparr>
   \<and> list_topics example_env example_store JUndefined (Some 1) (Some 9223372036854775808)
     = \<lparr>status = 500, body = Error_thrown (Pg Numeric_value_out_of_range)\<rparr>"
  by (simp add: list_topics_def res_status_json_def in_int8_def js_offset_def to_double_def)

end
